theory Spec2Isabelle
  imports Main
begin

section \<open>JavaScript library operations used by the scripts\<close>

subsection \<open>Strings\<close>

text \<open>
  A string is the list of the bytes of its text in UTF-8, which is how the files hold it:
  a character outside ASCII is two to four bytes. A file is taken to be valid UTF-8.
\<close>

text \<open>
  The byte strings that are the UTF-8 of a text: one byte up to 0x7F, or a first byte and
  one to three bytes that continue it, without the forms that are too long, the surrogates
  and the values above U+10FFFF. Reading such a file as text and writing the text again
  gives the same bytes; the decoder replaces every other byte by U+FFFD.
\<close>

definition byteIn :: "nat \<Rightarrow> nat \<Rightarrow> char \<Rightarrow> bool" where
  "byteIn lo hi c = (lo \<le> of_char c \<and> (of_char c :: nat) \<le> hi)"

fun wellFormedUTF8 :: "string \<Rightarrow> bool" where
  "wellFormedUTF8 [] = True"
| "wellFormedUTF8 (c # cs) =
     (if byteIn 0x00 0x7F c then wellFormedUTF8 cs
      else if byteIn 0xC2 0xDF c then
        (case cs of
           c1 # rest \<Rightarrow> byteIn 0x80 0xBF c1 \<and> wellFormedUTF8 rest
         | _ \<Rightarrow> False)
      else if byteIn 0xE0 0xEF c then
        (case cs of
           c1 # c2 # rest \<Rightarrow>
             byteIn (if c = CHR 0xE0 then 0xA0 else 0x80) (if c = CHR 0xED then 0x9F else 0xBF) c1 \<and>
             byteIn 0x80 0xBF c2 \<and> wellFormedUTF8 rest
         | _ \<Rightarrow> False)
      else if byteIn 0xF0 0xF4 c then
        (case cs of
           c1 # c2 # c3 # rest \<Rightarrow>
             byteIn (if c = CHR 0xF0 then 0x90 else 0x80) (if c = CHR 0xF4 then 0x8F else 0xBF) c1 \<and>
             byteIn 0x80 0xBF c2 \<and> byteIn 0x80 0xBF c3 \<and> wellFormedUTF8 rest
         | _ \<Rightarrow> False)
      else False)"

text \<open>\<open>s.startsWith(p)\<close>, with the rest of the string after the prefix.\<close>

fun stripPrefix :: "string \<Rightarrow> string \<Rightarrow> string option" where
  "stripPrefix [] s = Some s"
| "stripPrefix (p # ps) [] = None"
| "stripPrefix (p # ps) (c # cs) = (if p = c then stripPrefix ps cs else None)"

text \<open>\<open>s.includes(sub)\<close>.\<close>

fun String_includes :: "string \<Rightarrow> string \<Rightarrow> bool" where
  "String_includes [] sub = (sub = [])"
| "String_includes (c # cs) sub =
     (case stripPrefix sub (c # cs) of Some rest \<Rightarrow> True | None \<Rightarrow> String_includes cs sub)"

text \<open>
  The white space of the language, which \<open>trim\<close> removes and \<open>\s\<close> matches: the
  characters U+0009 to U+000D, U+0020, U+00A0, U+1680, U+2000 to U+200A, U+2028, U+2029,
  U+202F, U+205F, U+3000 and the byte order mark U+FEFF, each as its bytes.
\<close>

definition whiteSpace :: "string list" where
  "whiteSpace =
     [[CHR 0x09], [CHR 0x0A], [CHR 0x0B], [CHR 0x0C], [CHR 0x0D], [CHR 0x20],
      [CHR 0xC2, CHR 0xA0],
      [CHR 0xE1, CHR 0x9A, CHR 0x80],
      [CHR 0xE2, CHR 0x80, CHR 0x80], [CHR 0xE2, CHR 0x80, CHR 0x81],
      [CHR 0xE2, CHR 0x80, CHR 0x82], [CHR 0xE2, CHR 0x80, CHR 0x83],
      [CHR 0xE2, CHR 0x80, CHR 0x84], [CHR 0xE2, CHR 0x80, CHR 0x85],
      [CHR 0xE2, CHR 0x80, CHR 0x86], [CHR 0xE2, CHR 0x80, CHR 0x87],
      [CHR 0xE2, CHR 0x80, CHR 0x88], [CHR 0xE2, CHR 0x80, CHR 0x89],
      [CHR 0xE2, CHR 0x80, CHR 0x8A],
      [CHR 0xE2, CHR 0x80, CHR 0xA8], [CHR 0xE2, CHR 0x80, CHR 0xA9],
      [CHR 0xE2, CHR 0x80, CHR 0xAF],
      [CHR 0xE2, CHR 0x81, CHR 0x9F],
      [CHR 0xE3, CHR 0x80, CHR 0x80],
      [CHR 0xEF, CHR 0xBB, CHR 0xBF]]"

text \<open>The string without the first of the given characters it begins with, if there is
  one. A character has at least one byte.\<close>

fun stripFirst :: "string list \<Rightarrow> string \<Rightarrow> string option" where
  "stripFirst [] s = None"
| "stripFirst (p # ps) s =
     (case (if p = [] then None else stripPrefix p s) of
        Some rest \<Rightarrow> Some rest
      | None \<Rightarrow> stripFirst ps s)"

lemma stripPrefix_length: "stripPrefix p s = Some rest \<Longrightarrow> length s = length p + length rest"
  by (induction p s rule: stripPrefix.induct) (auto split: if_splits)

lemma stripFirst_shorter: "stripFirst ps s = Some rest \<Longrightarrow> length rest < length s"
  by (induction ps) (auto split: if_splits option.splits dest: stripPrefix_length)

text \<open>The string without the given characters at its start, as long as there are any.\<close>

function dropLeading :: "string list \<Rightarrow> string \<Rightarrow> string" where
  "dropLeading ps s = (case stripFirst ps s of None \<Rightarrow> s | Some rest \<Rightarrow> dropLeading ps rest)"
  by pat_completeness auto
termination
  by (relation "measure (\<lambda>(ps, s). length s)") (auto dest: stripFirst_shorter)

declare dropLeading.simps [simp del]

text \<open>
  \<open>s.trimStart()\<close>, \<open>s.trimEnd()\<close> and \<open>s.trim()\<close>. At the end of valid UTF-8
  the bytes of a character stand for that character only, so the end is trimmed on the
  reversed bytes.
\<close>

definition trimStart :: "string \<Rightarrow> string" where
  "trimStart s = dropLeading whiteSpace s"

definition trimEnd :: "string \<Rightarrow> string" where
  "trimEnd s = rev (dropLeading (map rev whiteSpace) (rev s))"

definition trim :: "string \<Rightarrow> string" where
  "trim s = trimEnd (trimStart s)"

text \<open>\<open>s.split(sep)\<close> for a separator of one character: never the empty array.\<close>

fun split :: "char \<Rightarrow> string \<Rightarrow> string list" where
  "split sep [] = [[]]"
| "split sep (c # cs) =
     (if c = sep then [] # split sep cs
      else (case split sep cs of [] \<Rightarrow> [[c]] | p # ps \<Rightarrow> (c # p) # ps))"

text \<open>\<open>arr.join(sep)\<close>.\<close>

fun join :: "string \<Rightarrow> string list \<Rightarrow> string" where
  "join sep [] = []"
| "join sep [x] = x"
| "join sep (x # y # ys) = x @ sep @ join sep (y # ys)"

text \<open>\<open>s.endsWith(suffix)\<close>.\<close>

definition endsWith :: "string \<Rightarrow> string \<Rightarrow> bool" where
  "endsWith s suffix = (length suffix \<le> length s \<and> drop (length s - length suffix) s = suffix)"

subsection \<open>Numbers\<close>

text \<open>
  A line number is a natural number. The template literal \<open>`${line}`\<close> renders it in
  decimal, without leading zeros.
\<close>

definition digitChar :: "nat \<Rightarrow> char" where
  "digitChar d = char_of (48 + d)"

fun toString :: "nat \<Rightarrow> string" where
  "toString n = (if n < 10 then [digitChar n] else toString (n div 10) @ [digitChar (n mod 10)])"

declare toString.simps [simp del]

text \<open>
  The numbers the writer computes with are integers or NaN: \<open>None\<close> is NaN.
  \<open>Number(x)\<close> is modelled on what the program applies it to: \<open>undefined\<close>
  (\<open>None\<close>) is NaN, a non-empty string of decimal digits is its value, and every other
  string is NaN. (JavaScript reads some more numeral forms: signs, exponents, fractions,
  hexadecimal, surrounding blanks, and the empty string as 0. No key of the planner
  contains one, see \<open>Number_toString\<close>.)
\<close>

definition isDigit :: "char \<Rightarrow> bool" where
  "isDigit c = (48 \<le> (of_char c :: nat) \<and> (of_char c :: nat) \<le> 57)"

definition digitsValue :: "string \<Rightarrow> nat" where
  "digitsValue cs = foldl (\<lambda>acc c. 10 * acc + (of_char c - 48)) 0 cs"

definition Number :: "string option \<Rightarrow> int option" where
  "Number x =
     (case x of
        None \<Rightarrow> None
      | Some cs \<Rightarrow> if cs \<noteq> [] \<and> list_all isDigit cs then Some (int (digitsValue cs)) else None)"

text \<open>\<open>ToIntegerOrInfinity\<close> of the language standard: NaN becomes 0.\<close>

definition ToIntegerOrInfinity :: "int option \<Rightarrow> int" where
  "ToIntegerOrInfinity n = (case n of None \<Rightarrow> 0 | Some i \<Rightarrow> i)"

subsection \<open>Arrays\<close>

text \<open>\<open>arr[i]\<close>: \<open>undefined\<close> (\<open>None\<close>) out of range.\<close>

definition at :: "'a list \<Rightarrow> nat \<Rightarrow> 'a option" where
  "at arr i = (if i < length arr then Some (arr ! i) else None)"

text \<open>
  \<open>arr.splice(start, 0, item)\<close>: nothing is deleted and \<open>item\<close> is inserted. A negative
  start counts from the end, and the start is clamped to the array.
\<close>

definition Array_splice :: "int option \<Rightarrow> 'a \<Rightarrow> 'a list \<Rightarrow> 'a list" where
  "Array_splice start item arr =
     (let len = int (length arr);
          relativeStart = ToIntegerOrInfinity start;
          actualStart = (if relativeStart < 0 then max (len + relativeStart) 0
                         else min relativeStart len)
      in take (nat actualStart) arr @ item # drop (nat actualStart) arr)"

text \<open>
  \<open>arr.sort(compareFn)\<close>. The comparison function returns a number, and NaN counts
  as 0. The standard asks for a stable sort; the algorithm is the engine's, and it is
  modelled by insertion from the right, which is stable: an element moves behind the
  elements after it that compare strictly smaller.
\<close>

fun insertSorted :: "('a \<Rightarrow> 'a \<Rightarrow> int option) \<Rightarrow> 'a \<Rightarrow> 'a list \<Rightarrow> 'a list" where
  "insertSorted compareFn x [] = [x]"
| "insertSorted compareFn x (y # ys) =
     (if ToIntegerOrInfinity (compareFn x y) > 0 then y # insertSorted compareFn x ys
      else x # y # ys)"

definition Array_sort :: "('a \<Rightarrow> 'a \<Rightarrow> int option) \<Rightarrow> 'a list \<Rightarrow> 'a list" where
  "Array_sort compareFn arr = foldr (insertSorted compareFn) arr []"

subsection \<open>\<open>Map\<close> and \<open>Set\<close>\<close>

text \<open>
  A \<open>Map\<close> is the list of its entries and a \<open>Set\<close> the list of its elements, both
  in insertion order, which is the order of iteration. \<open>set\<close> on a present key keeps
  the entry's place; a new key or element goes to the end.
\<close>

definition Map_has :: "('k \<times> 'v) list \<Rightarrow> 'k \<Rightarrow> bool" where
  "Map_has m k = (k \<in> fst ` set m)"

definition Map_get :: "('k \<times> 'v) list \<Rightarrow> 'k \<Rightarrow> 'v option" where
  "Map_get m k = map_of m k"

fun Map_set :: "'k \<Rightarrow> 'v \<Rightarrow> ('k \<times> 'v) list \<Rightarrow> ('k \<times> 'v) list" where
  "Map_set k v [] = [(k, v)]"
| "Map_set k v (p # ps) = (if fst p = k then (k, v) # ps else p # Map_set k v ps)"

definition Map_delete :: "'k \<Rightarrow> ('k \<times> 'v) list \<Rightarrow> ('k \<times> 'v) list" where
  "Map_delete k m = filter (\<lambda>p. fst p \<noteq> k) m"

definition Set_add :: "'a \<Rightarrow> 'a list \<Rightarrow> 'a list" where
  "Set_add x s = (if x \<in> set s then s else s @ [x])"

section \<open>The lint engine's results\<close>

text \<open>
  One warning of a lint result. The severity is the engine's string. The lines are
  1-indexed line numbers, and both are given: a warning that the engine reports without
  an end line is outside the model.
\<close>

record warning =
  severity :: string
  line :: nat
  endLine :: nat
  rule :: string

record lint_result =
  source :: string
  errored :: bool
  warnings :: "warning list"

section \<open>The planner: helpers of \<open>addingCommentsWithStylelintErrors\<close>\<close>

text \<open>The key \<open>`${line}|${endLine}`\<close>.\<close>

definition key :: "nat \<Rightarrow> nat \<Rightarrow> string" where
  "key l e = toString l @ ''|'' @ toString e"

text \<open>The callback of the \<open>reduce\<close> in \<open>helperCollectionFilesErrorsFromWarningsArray\<close>.
  \<open>acc.get(key).add(rule)\<close> changes the set stored under the key; the key is present
  there.\<close>

definition collectWarning ::
  "(string \<times> string list) list \<Rightarrow> warning \<Rightarrow> (string \<times> string list) list" where
  "collectWarning acc w =
     (let isWarning = (severity w \<noteq> ''error'') in
      if isWarning then acc
      else
        let k = key (line w) (endLine w);
            acc1 = (if \<not> Map_has acc k then Map_set k [] acc else acc)
        in case Map_get acc1 k of
             None \<Rightarrow> acc1
           | Some rules \<Rightarrow> Map_set k (Set_add (rule w) rules) acc1)"

definition helperCollectionFilesErrorsFromWarningsArray ::
  "warning list \<Rightarrow> (string \<times> string list) list" where
  "helperCollectionFilesErrorsFromWarningsArray warningsArray =
     foldl collectWarning [] warningsArray"

text \<open>\<open>Number(lines.split('|')[0])\<close> and \<open>Number(lines.split('|')[1])\<close>.\<close>

definition startLineOf :: "string \<Rightarrow> int option" where
  "startLineOf lines = Number (at (split CHR ''|'' lines) 0)"

definition endLineOf :: "string \<Rightarrow> int option" where
  "endLineOf lines = Number (at (split CHR ''|'' lines) 1)"

text \<open>The comparison function of the sort: \<open>startLine1 - startLine2\<close>, NaN if one is.\<close>

definition compareEntries ::
  "string \<times> string list \<Rightarrow> string \<times> string list \<Rightarrow> int option" where
  "compareEntries array1 array2 =
     (case (startLineOf (fst array1), startLineOf (fst array2)) of
        (Some startLine1, Some startLine2) \<Rightarrow> Some (startLine1 - startLine2)
      | _ \<Rightarrow> None)"

text \<open>
  The start line of a plan entry as a number, NaN read as 0 the way \<open>splice\<close> reads
  its start: what the plan is sorted by.
\<close>

definition startLineNumber :: "string \<times> string list \<Rightarrow> int" where
  "startLineNumber entry = ToIntegerOrInfinity (startLineOf (fst entry))"

definition helperSortedEntiresFromCollectionFilesErrors ::
  "(string \<times> string list) list \<Rightarrow> (string \<times> string list) list" where
  "helperSortedEntiresFromCollectionFilesErrors collectionFilesErrors =
     Array_sort compareEntries collectionFilesErrors"

text \<open>The plan of one file: the two helpers, as the loop over the lint results calls them.\<close>

definition plan :: "warning list \<Rightarrow> (string \<times> string list) list" where
  "plan ws =
     helperSortedEntiresFromCollectionFilesErrors (helperCollectionFilesErrorsFromWarningsArray ws)"

definition helperCommentDisableFromArrayRules :: "string list \<Rightarrow> string \<Rightarrow> string" where
  "helperCommentDisableFromArrayRules rules commentType =
     ''/* stylelint-'' @ commentType @ '' '' @ join '','' rules @ '' */''"

section \<open>The writer: the loop over the plan\<close>

text \<open>
  The body of the loop over \<open>sortedEntriesFilesErrors\<close>. The state is the line array
  \<open>sourceCodeFile\<close> and \<open>counterInsertionLines\<close>. An index is NaN when the line is.
\<close>

definition insertComments ::
  "bool \<Rightarrow> string list \<times> int \<Rightarrow> string \<times> string list \<Rightarrow> string list \<times> int" where
  "insertComments useStylelintDisableComments st entry =
     (let sourceCodeFile = fst st;
          counterInsertionLines = snd st;
          lines = fst entry;
          rules = snd entry;
          startLine = startLineOf lines;
          endLine = endLineOf lines
      in
        if useStylelintDisableComments then
          let indexDisableComment = map_option (\<lambda>s. s - 1 + counterInsertionLines) startLine;
              disableComment = helperCommentDisableFromArrayRules rules ''disable'';
              indexEnableComment = map_option (\<lambda>e. e + 1 + counterInsertionLines) endLine;
              enableComment = helperCommentDisableFromArrayRules rules ''enable''
          in (Array_splice indexEnableComment enableComment
                (Array_splice indexDisableComment disableComment sourceCodeFile),
              counterInsertionLines + 2)
        else
          let indexDisableNextLineComment =
                map_option (\<lambda>s. s - 1 + counterInsertionLines) startLine;
              disableNextLineComment = helperCommentDisableFromArrayRules rules ''disable-next-line''
          in (Array_splice indexDisableNextLineComment disableNextLineComment sourceCodeFile,
              counterInsertionLines + 1))"

definition addComments ::
  "bool \<Rightarrow> string list \<Rightarrow> (string \<times> string list) list \<Rightarrow> string list \<times> int" where
  "addComments useStylelintDisableComments sourceCodeFile sortedEntriesFilesErrors =
     foldl (insertComments useStylelintDisableComments) (sourceCodeFile, 0)
       sortedEntriesFilesErrors"

section \<open>The file system, the console and the lint engine\<close>

text \<open>
  The file system is a map from paths to file contents, and the paths are the strings the
  scripts use. Reading and renaming fail on a missing file; \<open>writeFile\<close> with the flag
  \<open>w\<close> creates the file or replaces its content.
\<close>

type_synonym path = string

type_synonym fs = "path \<rightharpoonup> string"

datatype error =
    NoFile path  \<comment> \<open>the \<open>Error\<close> of \<open>isFileExists\<close>\<close>
  | ENOENT path  \<comment> \<open>a missing file, from \<open>rename\<close>, \<open>readFile\<close> or a read stream\<close>
  | TypeError  \<comment> \<open>the language's: iterating or destructuring \<open>undefined\<close>, calling a string\<close>
  | SyntaxError  \<comment> \<open>of \<open>JSON.parse\<close>\<close>
  | LintError string  \<comment> \<open>a rejection of the lint engine\<close>

definition isFileExists :: "path \<Rightarrow> fs \<Rightarrow> error + bool" where
  "isFileExists filePath d = (if d filePath = None then Inl (NoFile filePath) else Inr True)"

definition readFile :: "path \<Rightarrow> fs \<Rightarrow> error + string" where
  "readFile filePath d = (case d filePath of None \<Rightarrow> Inl (ENOENT filePath) | Some text \<Rightarrow> Inr text)"

definition writeFile :: "path \<Rightarrow> string \<Rightarrow> fs \<Rightarrow> fs" where
  "writeFile filePath text d = d(filePath \<mapsto> text)"

definition rename :: "path \<Rightarrow> path \<Rightarrow> fs \<Rightarrow> error + fs" where
  "rename oldPath newPath d =
     (case d oldPath of
        None \<Rightarrow> Inl (ENOENT oldPath)
      | Some text \<Rightarrow> Inr ((d(oldPath := None))(newPath \<mapsto> text)))"

text \<open>
  \<open>path.join(baseUrl, name)\<close> for a base without a separator at its end and without
  \<open>..\<close>: the base \<open>.\<close> disappears. The scripts call it with the base \<open>.\<close> only.
\<close>

definition path_join :: "path \<Rightarrow> path \<Rightarrow> path" where
  "path_join baseUrl name = (if baseUrl = ''.'' then name else baseUrl @ ''/'' @ name)"

text \<open>
  The lines a \<open>readline\<close> interface on a read stream of the file yields. A line
  ends at a line feed, at a carriage return, at the two together, or at a line separator
  U+2028 or paragraph separator U+2029 (the line ends of the interface in the current
  versions of Node), and the rest after the last line end is a line when it is not empty.
  The first argument is the line read so far.
\<close>

fun readline :: "string \<Rightarrow> string \<Rightarrow> string list" where
  "readline cur [] = (if cur = [] then [] else [cur])"
| "readline cur (c # cs) =
     (if c = CHR 0x0A then cur # readline [] cs
      else if c = CHR 0x0D then
        (case cs of
           [] \<Rightarrow> cur # readline [] cs
         | d # ds \<Rightarrow> if d = CHR 0x0A then cur # readline [] ds else cur # readline [] cs)
      else if c = CHR 0xE2 then
        (case cs of
           d # e # es \<Rightarrow>
             if d = CHR 0x80 \<and> (e = CHR 0xA8 \<or> e = CHR 0xA9) then cur # readline [] es
             else readline (cur @ [c]) cs
         | _ \<Rightarrow> readline (cur @ [c]) cs)
      else readline (cur @ [c]) cs)"

text \<open>What the scripts print, one constructor for each message.\<close>

datatype message =
    Log_start_compress  \<comment> \<open>\<open>Start compress .stylelintignore script...\<close>\<close>
  | Log_start_delete  \<comment> \<open>\<open>Start delete .stylelintignore script...\<close>\<close>
  | Log_size_and_lines nat nat  \<comment> \<open>\<open>Total file size: .. bytes\<close>, \<open>Total lines in the file: ..\<close>\<close>
  | Log_success  \<comment> \<open>\<open>Success\<close>\<close>
  | Log_errors_previous nat  \<comment> \<open>\<open>Total errors stylelint previous: ..\<close>\<close>
  | Log_errors_current nat  \<comment> \<open>\<open>Total errors stylelint current: ..\<close>\<close>
  | Error_size_and_length path error  \<comment> \<open>\<open>Error: file size and length definitions ..\<close>\<close>
  | Error_config error  \<comment> \<open>\<open>Error: reading stylelint config file - ..\<close>\<close>
  | Error_ignore error  \<comment> \<open>\<open>Error: reading stylelint ignore file - ..\<close>\<close>
  | Error_disable_comment error
      \<comment> \<open>\<open>Error: filtering from files containing a stylelint-disable comment - ..\<close>\<close>
  | Error_without_errors error
      \<comment> \<open>\<open>Error: filtering from files that do not contain errors - ..\<close>\<close>
  | Error_writing error  \<comment> \<open>\<open>Error: writing a file .stylelintignore - ..\<close>\<close>
  | Error_adding_comments error  \<comment> \<open>\<open>Error: adding comments to style files - ..\<close>\<close>

record world =
  disk :: fs
  console :: "message list"

definition log :: "message \<Rightarrow> world \<Rightarrow> world" where
  "log message w = w\<lparr>console := console w @ [message]\<rparr>"

text \<open>
  \<open>Set.prototype.delete\<close> on a set of strings. The argument is any value of the
  language, and an element goes when it is the same value: a string is never an object.
\<close>

datatype jsval = JString string | JObject lint_result

definition Set_delete :: "jsval \<Rightarrow> string list \<Rightarrow> string list" where
  "Set_delete v s = filter (\<lambda>x. JString x \<noteq> v) s"

text \<open>\<open>new Set(files)\<close>.\<close>

definition new_Set :: "'a list \<Rightarrow> 'a list" where
  "new_Set xs = foldl (\<lambda>s x. Set_add x s) [] xs"

text \<open>
  The collaborators outside the repository are parameters of the functions that call
  them: \<open>JSON_parse\<close> (\<open>None\<close> for a syntax error), \<open>glob_sync\<close> from a pattern to the
  files it matches, and \<open>lint\<close>, the lint engine, from the configuration (\<open>None\<close> is
  \<open>undefined\<close>), the files and the file system to the results or a rejection.
\<close>

section \<open>Functions of both scripts\<close>

text \<open>
  The test of the regular expression \<open>/^\/\*\s*stylelint-disable\s*\*\/$/\<close>. What
  follows \<open>\s*\<close> is no white space, so \<open>\s*\<close> takes all the white space there is.
\<close>

definition matchDisableComment :: "string \<Rightarrow> bool" where
  "matchDisableComment s =
     (case stripPrefix ''/*'' s of
        None \<Rightarrow> False
      | Some s1 \<Rightarrow>
          (case stripPrefix ''stylelint-disable'' (trimStart s1) of
             None \<Rightarrow> False
           | Some s2 \<Rightarrow> trimStart s2 = ''*/''))"

text \<open>
  The loop over the lines of one file in \<open>filterFilesWithDisableComment\<close>: the value
  of \<open>skipFile\<close> after it. Blank lines are passed over and the loop ends at the first
  other line.
\<close>

fun skipFile :: "string list \<Rightarrow> bool" where
  "skipFile [] = False"
| "skipFile (ln # rest) =
     (if trim ln = [] then skipFile rest else matchDisableComment (trim ln))"

text \<open>
  The loop over the files of a set in \<open>filterFilesWithDisableComment\<close>. The second
  argument is what is left to visit and the third the set. A file that cannot be opened
  raises, and the loop is left with the set as it is then.
\<close>

fun filterFiles :: "fs \<Rightarrow> path list \<Rightarrow> path list \<Rightarrow> error option \<times> path list" where
  "filterFiles d [] s = (None, s)"
| "filterFiles d (file # rest) s =
     (case d file of
        None \<Rightarrow> (Some (ENOENT file), s)
      | Some text \<Rightarrow>
          filterFiles d rest
            (if skipFile (readline [] text) then Set_delete (JString file) s else s))"

text \<open>The lines of the manifest that are passed over, and the pattern of the others.\<close>

definition isSkippedLine :: "string \<Rightarrow> bool" where
  "isSkippedLine ln =
     (let isEmptyLine = (length (trim ln) = 0);
          isCommentLine = (length (trim ln) \<noteq> 0 \<and> at (trim ln) 0 = Some CHR ''#'')
      in isEmptyLine \<or> isCommentLine)"

definition patternOf :: "string \<Rightarrow> string" where
  "patternOf ln =
     (let isNotSingleFileLine = \<not> endsWith ln ''.css''
      in if isNotSingleFileLine then ln @ ''**/*.css'' else ln)"

section \<open>The script that deletes the manifest\<close>

definition getStylelintConfigContent_delete ::
  "(string \<Rightarrow> 'cfg option) \<Rightarrow> path \<Rightarrow> world \<Rightarrow> 'cfg option \<times> world" where
  "getStylelintConfigContent_delete JSON_parse stylelintFilePath w =
     (case isFileExists stylelintFilePath (disk w) of
        Inl e \<Rightarrow> (None, log (Error_config e) w)
      | Inr _ \<Rightarrow>
          (case readFile stylelintFilePath (disk w) of
             Inl e \<Rightarrow> (None, log (Error_config e) w)
           | Inr text \<Rightarrow>
               (case JSON_parse text of
                  None \<Rightarrow> (None, log (Error_config SyntaxError) w)
                | Some stylelintContent \<Rightarrow> (Some stylelintContent, w))))"

text \<open>The body of the loop over the lines of the manifest.\<close>

definition addIgnoredFiles :: "(string \<Rightarrow> path list) \<Rightarrow> path list \<Rightarrow> string \<Rightarrow> path list" where
  "addIgnoredFiles glob_sync stylelintIgnoreFiles ln =
     (if isSkippedLine ln then stylelintIgnoreFiles
      else
        let files = glob_sync (patternOf ln);
            isEmptyFolder = (length files = 0)
        in if isEmptyFolder then stylelintIgnoreFiles
           else foldl (\<lambda>s file. Set_add file s) stylelintIgnoreFiles files)"

definition getStylelintIgnoreContent_delete ::
  "(string \<Rightarrow> path list) \<Rightarrow> path \<Rightarrow> world \<Rightarrow> path list option \<times> world" where
  "getStylelintIgnoreContent_delete glob_sync stylelintIgnoreFilePath w =
     (case isFileExists stylelintIgnoreFilePath (disk w) of
        Inl e \<Rightarrow> (None, log (Error_ignore e) w)
      | Inr _ \<Rightarrow>
          (case readFile stylelintIgnoreFilePath (disk w) of
             Inl e \<Rightarrow> (None, log (Error_ignore e) w)
           | Inr text \<Rightarrow> (Some (foldl (addIgnoredFiles glob_sync) [] (readline [] text)), w)))"

text \<open>
  The set is changed in place; the model returns it. The set is \<open>undefined\<close>
  (\<open>None\<close>) when the manifest could not be read, and the loop over it raises.
\<close>

definition filterFilesWithDisableComment_delete ::
  "path list option \<Rightarrow> world \<Rightarrow> path list option \<times> world" where
  "filterFilesWithDisableComment_delete stylelintIgnoreFiles w =
     (case stylelintIgnoreFiles of
        None \<Rightarrow> (None, log (Error_disable_comment TypeError) w)
      | Some s \<Rightarrow>
          (case filterFiles (disk w) s s of
             (None, s') \<Rightarrow> (Some s', w)
           | (Some e, s') \<Rightarrow> (Some s', log (Error_disable_comment e) w)))"

definition countErrors :: "lint_result list \<Rightarrow> nat" where
  "countErrors stylelintResult =
     foldl (\<lambda>acc file.
        acc + foldl (\<lambda>acc w. if severity w = ''error'' then acc + 1 else acc) 0 (warnings file))
       0 stylelintResult"

text \<open>Nothing is caught in \<open>getStylelintCountErrors\<close>: a failure leaves it at once.\<close>

definition getStylelintCountErrors ::
  "('cfg option \<Rightarrow> path list \<Rightarrow> fs \<Rightarrow> error + lint_result list) \<Rightarrow>
   'cfg option \<Rightarrow> path list option \<Rightarrow> fs \<Rightarrow> (error + nat) \<times> fs" where
  "getStylelintCountErrors lint stylelintConfigContent stylelintIgnoreFiles d =
     (case rename ''.stylelintignore'' ''hash'' d of
        Inl e \<Rightarrow> (Inl e, d)
      | Inr d1 \<Rightarrow>
          (case stylelintIgnoreFiles of
             None \<Rightarrow> (Inl TypeError, d1)
           | Some files \<Rightarrow>
               (case lint stylelintConfigContent files d1 of
                  Inl e \<Rightarrow> (Inl e, d1)
                | Inr stylelintResult \<Rightarrow>
                    (case rename ''hash'' ''.stylelintignore'' d1 of
                       Inl e \<Rightarrow> (Inl e, d1)
                     | Inr d2 \<Rightarrow> (Inr (countErrors stylelintResult), d2)))))"

text \<open>
  The body of the loop over the lint results in \<open>addingCommentsWithStylelintErrors\<close>:
  a result without errors is passed over; otherwise the file is read, the comments of its
  plan are inserted, the file is written, and the manifest is written empty.
\<close>

definition commentFile :: "bool \<Rightarrow> path \<Rightarrow> lint_result \<Rightarrow> fs \<Rightarrow> error + fs" where
  "commentFile useStylelintDisableComments stylelintIgnoreFilePath file d =
     (let isFileNotContainError = \<not> errored file
      in if isFileNotContainError then Inr d
         else
           (case readFile (source file) d of
              Inl e \<Rightarrow> Inl e
            | Inr text \<Rightarrow>
                let sourceCodeFile = split CHR 0x0A text;
                    collectionFilesErrors =
                      helperCollectionFilesErrorsFromWarningsArray (warnings file);
                    sortedEntriesFilesErrors =
                      helperSortedEntiresFromCollectionFilesErrors collectionFilesErrors;
                    written = fst (addComments useStylelintDisableComments sourceCodeFile
                                     sortedEntriesFilesErrors)
                in Inr (writeFile stylelintIgnoreFilePath []
                          (writeFile (source file) (join [CHR 0x0A] written) d))))"

fun commentFiles :: "bool \<Rightarrow> path \<Rightarrow> lint_result list \<Rightarrow> fs \<Rightarrow> error option \<times> fs" where
  "commentFiles useStylelintDisableComments stylelintIgnoreFilePath [] d = (None, d)"
| "commentFiles useStylelintDisableComments stylelintIgnoreFilePath (file # rest) d =
     (case commentFile useStylelintDisableComments stylelintIgnoreFilePath file d of
        Inl e \<Rightarrow> (Some e, d)
      | Inr d' \<Rightarrow> commentFiles useStylelintDisableComments stylelintIgnoreFilePath rest d')"

text \<open>The \<open>try\<close> block of \<open>addingCommentsWithStylelintErrors\<close>: what was raised, if
  anything, and the file system then.\<close>

definition tryAddingComments ::
  "('cfg option \<Rightarrow> path list \<Rightarrow> fs \<Rightarrow> error + lint_result list) \<Rightarrow>
   path list option \<Rightarrow> path \<Rightarrow> 'cfg option \<Rightarrow> bool \<Rightarrow> fs \<Rightarrow> error option \<times> fs" where
  "tryAddingComments lint stylelintIgnoreFiles stylelintIgnoreFilePath stylelintConfigContent
       useStylelintDisableComments d =
     (case rename ''.stylelintignore'' ''hash'' d of
        Inl e \<Rightarrow> (Some e, d)
      | Inr d1 \<Rightarrow>
          (case stylelintIgnoreFiles of
             None \<Rightarrow> (Some TypeError, d1)
           | Some files \<Rightarrow>
               (case lint stylelintConfigContent files d1 of
                  Inl e \<Rightarrow> (Some e, d1)
                | Inr stylelintResults \<Rightarrow>
                    (case rename ''hash'' ''.stylelintignore'' d1 of
                       Inl e \<Rightarrow> (Some e, d1)
                     | Inr d2 \<Rightarrow>
                         commentFiles useStylelintDisableComments stylelintIgnoreFilePath
                           stylelintResults d2))))"

text \<open>The \<open>catch\<close> renames back before it prints; a failure of that renaming leaves the
  function.\<close>

definition addingCommentsWithStylelintErrors ::
  "('cfg option \<Rightarrow> path list \<Rightarrow> fs \<Rightarrow> error + lint_result list) \<Rightarrow>
   path list option \<Rightarrow> path \<Rightarrow> 'cfg option \<Rightarrow> bool \<Rightarrow> world \<Rightarrow> (error + unit) \<times> world" where
  "addingCommentsWithStylelintErrors lint stylelintIgnoreFiles stylelintIgnoreFilePath
       stylelintConfigContent useStylelintDisableComments w =
     (case tryAddingComments lint stylelintIgnoreFiles stylelintIgnoreFilePath
             stylelintConfigContent useStylelintDisableComments (disk w) of
        (None, d) \<Rightarrow> (Inr (), w\<lparr>disk := d\<rparr>)
      | (Some e, d) \<Rightarrow>
          (case rename ''hash'' ''.stylelintignore'' d of
             Inl e' \<Rightarrow> (Inl e', w\<lparr>disk := d\<rparr>)
           | Inr d' \<Rightarrow> (Inr (), log (Error_adding_comments e) (w\<lparr>disk := d'\<rparr>))))"

definition deleteStylelintIgnore ::
  "(string \<Rightarrow> 'cfg option) \<Rightarrow> (string \<Rightarrow> path list) \<Rightarrow>
   ('cfg option \<Rightarrow> path list \<Rightarrow> fs \<Rightarrow> error + lint_result list) \<Rightarrow>
   path \<Rightarrow> world \<Rightarrow> (error + unit) \<times> world" where
  "deleteStylelintIgnore JSON_parse glob_sync lint baseUrl w0 =
     (let w1 = log Log_start_delete w0;
          stylelintIgnoreFilePath = path_join baseUrl ''.stylelintignore'';
          stylelintConfigFilePath = path_join baseUrl ''.stylelintrc.json'';
          (stylelintConfigContent, w2) =
            getStylelintConfigContent_delete JSON_parse stylelintConfigFilePath w1;
          (stylelintIgnoreFiles, w3) =
            getStylelintIgnoreContent_delete glob_sync stylelintIgnoreFilePath w2
      in case getStylelintCountErrors lint stylelintConfigContent stylelintIgnoreFiles (disk w3) of
           (Inl e, d) \<Rightarrow> (Inl e, w3\<lparr>disk := d\<rparr>)
         | (Inr previous, d) \<Rightarrow>
             let w4 = log (Log_errors_previous previous) (w3\<lparr>disk := d\<rparr>);
                 (filtered, w5) = filterFilesWithDisableComment_delete stylelintIgnoreFiles w4
             in case addingCommentsWithStylelintErrors lint filtered stylelintIgnoreFilePath
                       stylelintConfigContent True w5 of
                  (Inl e, w6) \<Rightarrow> (Inl e, w6)
                | (Inr _, w6) \<Rightarrow>
                    (case getStylelintCountErrors lint stylelintConfigContent filtered (disk w6) of
                       (Inl e, d') \<Rightarrow> (Inl e, w6\<lparr>disk := d'\<rparr>)
                     | (Inr current, d') \<Rightarrow>
                         (Inr (), log (Log_errors_current current) (w6\<lparr>disk := d'\<rparr>))))"

section \<open>The script that compresses the manifest\<close>

text \<open>The size is the number of bytes and the length the number of pieces between line
  feeds. The function returns \<open>undefined\<close> (\<open>None\<close>) after an error.\<close>

definition determinateSizeAndLengthFile :: "path \<Rightarrow> world \<Rightarrow> (nat \<times> nat) option \<times> world" where
  "determinateSizeAndLengthFile filePath w =
     (case isFileExists filePath (disk w) of
        Inl e \<Rightarrow> (None, log (Error_size_and_length filePath e) w)
      | Inr _ \<Rightarrow>
          (case readFile filePath (disk w) of
             Inl e \<Rightarrow> (None, log (Error_size_and_length filePath e) w)
           | Inr text \<Rightarrow> (Some (length text, length (split CHR 0x0A text)), w)))"

text \<open>
  In this script the \<open>catch\<close> calls \<open>e.message()\<close>. The message of an error is a
  string, so the call raises a \<open>TypeError\<close> in place of the printing.
\<close>

definition getStylelintConfigContent_compress ::
  "(string \<Rightarrow> 'cfg option) \<Rightarrow> path \<Rightarrow> world \<Rightarrow> (error + 'cfg) \<times> world" where
  "getStylelintConfigContent_compress JSON_parse stylelintFilePath w =
     (case isFileExists stylelintFilePath (disk w) of
        Inl e \<Rightarrow> (Inl TypeError, w)
      | Inr _ \<Rightarrow>
          (case readFile stylelintFilePath (disk w) of
             Inl e \<Rightarrow> (Inl TypeError, w)
           | Inr text \<Rightarrow>
               (case JSON_parse text of
                  None \<Rightarrow> (Inl TypeError, w)
                | Some stylelintContent \<Rightarrow> (Inr stylelintContent, w))))"

text \<open>The body of the loop over the lines of the manifest.\<close>

definition addIgnoreEntry ::
  "(string \<Rightarrow> path list) \<Rightarrow> (string \<times> path list) list \<Rightarrow> string \<Rightarrow> (string \<times> path list) list" where
  "addIgnoreEntry glob_sync stylelintIgnoreCollection ln =
     (if isSkippedLine ln then stylelintIgnoreCollection
      else
        let files = glob_sync (patternOf ln);
            isEmptyFolder = (length files = 0)
        in if isEmptyFolder then stylelintIgnoreCollection
           else Map_set ln (new_Set files) stylelintIgnoreCollection)"

definition getStylelintIgnoreContent_compress ::
  "(string \<Rightarrow> path list) \<Rightarrow> path \<Rightarrow> world \<Rightarrow> (string \<times> path list) list option \<times> world" where
  "getStylelintIgnoreContent_compress glob_sync stylelintIgnoreFilePath w =
     (case isFileExists stylelintIgnoreFilePath (disk w) of
        Inl e \<Rightarrow> (None, log (Error_ignore e) w)
      | Inr _ \<Rightarrow>
          (case readFile stylelintIgnoreFilePath (disk w) of
             Inl e \<Rightarrow> (None, log (Error_ignore e) w)
           | Inr text \<Rightarrow> (Some (foldl (addIgnoreEntry glob_sync) [] (readline [] text)), w)))"

text \<open>
  The loop over the entries in \<open>filterFilesWithDisableComment\<close>. The second argument
  is what is left to visit and the third the collection. The set of the entry is changed
  in place, and the entry is deleted when its set has become empty.
\<close>

fun filterEntries ::
  "fs \<Rightarrow> (string \<times> path list) list \<Rightarrow> (string \<times> path list) list \<Rightarrow>
   error option \<times> (string \<times> path list) list" where
  "filterEntries d [] stylelintIgnoreCollection = (None, stylelintIgnoreCollection)"
| "filterEntries d ((ln, files) # rest) stylelintIgnoreCollection =
     (case filterFiles d files files of
        (Some e, files') \<Rightarrow> (Some e, Map_set ln files' stylelintIgnoreCollection)
      | (None, files') \<Rightarrow>
          filterEntries d rest
            (if length files' = 0 then Map_delete ln (Map_set ln files' stylelintIgnoreCollection)
             else Map_set ln files' stylelintIgnoreCollection))"

definition filterFilesWithDisableComment_compress ::
  "(string \<times> path list) list option \<Rightarrow> world \<Rightarrow> (string \<times> path list) list option \<times> world" where
  "filterFilesWithDisableComment_compress stylelintIgnoreCollection w =
     (case stylelintIgnoreCollection of
        None \<Rightarrow> (None, log (Error_disable_comment TypeError) w)
      | Some c \<Rightarrow>
          (case filterEntries (disk w) c c of
             (None, c') \<Rightarrow> (Some c', w)
           | (Some e, c') \<Rightarrow> (Some c', log (Error_disable_comment e) w)))"

text \<open>
  The loop over the lint results of one entry in \<open>filterFilesWithoutErrors\<close>:
  \<open>files.delete(file)\<close> is called with the lint result itself.
\<close>

definition deleteFilesWithoutErrors :: "path list \<Rightarrow> lint_result list \<Rightarrow> path list" where
  "deleteFilesWithoutErrors files stylelintResults =
     foldl (\<lambda>s file.
        let isFileNotContainError = \<not> errored file
        in if isFileNotContainError then Set_delete (JObject file) s else s)
       files stylelintResults"

text \<open>The loop over the entries in \<open>filterFilesWithoutErrors\<close>, with the file system.\<close>

fun filterEntriesWithoutErrors ::
  "('cfg option \<Rightarrow> path list \<Rightarrow> fs \<Rightarrow> error + lint_result list) \<Rightarrow> 'cfg option \<Rightarrow>
   (string \<times> path list) list \<Rightarrow> (string \<times> path list) list \<Rightarrow> fs \<Rightarrow>
   error option \<times> (string \<times> path list) list \<times> fs" where
  "filterEntriesWithoutErrors lint stylelintConfigContent [] stylelintIgnoreCollection d =
     (None, stylelintIgnoreCollection, d)"
| "filterEntriesWithoutErrors lint stylelintConfigContent ((ln, files) # rest)
       stylelintIgnoreCollection d =
     (case rename ''.stylelintignore'' ''hash'' d of
        Inl e \<Rightarrow> (Some e, stylelintIgnoreCollection, d)
      | Inr d1 \<Rightarrow>
          (case lint stylelintConfigContent files d1 of
             Inl e \<Rightarrow> (Some e, stylelintIgnoreCollection, d1)
           | Inr stylelintResults \<Rightarrow>
               (case rename ''hash'' ''.stylelintignore'' d1 of
                  Inl e \<Rightarrow> (Some e, stylelintIgnoreCollection, d1)
                | Inr d2 \<Rightarrow>
                    let files' = deleteFilesWithoutErrors files stylelintResults;
                        changed = Map_set ln files' stylelintIgnoreCollection
                    in filterEntriesWithoutErrors lint stylelintConfigContent rest
                         (if length files' = 0 then Map_delete ln changed else changed) d2)))"

definition filterFilesWithoutErrors ::
  "('cfg option \<Rightarrow> path list \<Rightarrow> fs \<Rightarrow> error + lint_result list) \<Rightarrow>
   (string \<times> path list) list option \<Rightarrow> 'cfg option \<Rightarrow> world \<Rightarrow>
   (error + unit) \<times> (string \<times> path list) list option \<times> world" where
  "filterFilesWithoutErrors lint stylelintIgnoreCollection stylelintConfigContent w =
     (case (case stylelintIgnoreCollection of
              None \<Rightarrow> (Some TypeError, None, disk w)
            | Some c \<Rightarrow>
                (case filterEntriesWithoutErrors lint stylelintConfigContent c c (disk w) of
                   (raised, c', d) \<Rightarrow> (raised, Some c', d))) of
        (None, c', d) \<Rightarrow> (Inr (), c', w\<lparr>disk := d\<rparr>)
      | (Some e, c', d) \<Rightarrow>
          (case rename ''hash'' ''.stylelintignore'' d of
             Inl e' \<Rightarrow> (Inl e', c', w\<lparr>disk := d\<rparr>)
           | Inr d' \<Rightarrow> (Inr (), c', log (Error_without_errors e) (w\<lparr>disk := d'\<rparr>))))"

definition writeNewStylelintIgnore ::
  "path \<Rightarrow> (string \<times> path list) list option \<Rightarrow> world \<Rightarrow> world" where
  "writeNewStylelintIgnore stylelintIgnoreFilePath stylelintIgnoreCollection w =
     (case stylelintIgnoreCollection of
        None \<Rightarrow> log (Error_writing TypeError) w
      | Some c \<Rightarrow>
          let newStylelintIgnoreContent =
                foldl (\<lambda>content (ln, files).
                         if length files \<noteq> 0 then content @ ln @ [CHR 0x0A] else content) [] c
          in w\<lparr>disk := writeFile stylelintIgnoreFilePath newStylelintIgnoreContent (disk w)\<rparr>)"

definition compressStylelintIgnore ::
  "(string \<Rightarrow> 'cfg option) \<Rightarrow> (string \<Rightarrow> path list) \<Rightarrow>
   ('cfg option \<Rightarrow> path list \<Rightarrow> fs \<Rightarrow> error + lint_result list) \<Rightarrow>
   path \<Rightarrow> world \<Rightarrow> (error + unit) \<times> world" where
  "compressStylelintIgnore JSON_parse glob_sync lint baseUrl w0 =
     (let w1 = log Log_start_compress w0;
          stylelintIgnoreFilePath = path_join baseUrl ''.stylelintignore'';
          stylelintConfigFilePath = path_join baseUrl ''.stylelintrc.json''
      in case determinateSizeAndLengthFile stylelintIgnoreFilePath w1 of
           (None, w2) \<Rightarrow> (Inl TypeError, w2)
         | (Some (initialSize, initialLength), w2) \<Rightarrow>
             let w3 = log (Log_size_and_lines initialSize initialLength) w2
             in case getStylelintConfigContent_compress JSON_parse stylelintConfigFilePath w3 of
                  (Inl e, w4) \<Rightarrow> (Inl e, w4)
                | (Inr stylelintConfigContent, w4) \<Rightarrow>
                    let (collection, w5) =
                          getStylelintIgnoreContent_compress glob_sync stylelintIgnoreFilePath w4;
                        (filtered, w6) = filterFilesWithDisableComment_compress collection w5
                    in case filterFilesWithoutErrors lint filtered (Some stylelintConfigContent) w6 of
                         (Inl e, _, w7) \<Rightarrow> (Inl e, w7)
                       | (Inr _, errored_only, w7) \<Rightarrow>
                           let w8 = writeNewStylelintIgnore stylelintIgnoreFilePath errored_only w7;
                               w9 = log Log_success w8
                           in case determinateSizeAndLengthFile stylelintIgnoreFilePath w9 of
                                (None, w10) \<Rightarrow> (Inl TypeError, w10)
                              | (Some (resultSize, resultLength), w10) \<Rightarrow>
                                  (Inr (), log (Log_size_and_lines resultSize resultLength) w10))"

section \<open>Notions the properties are stated with\<close>

text \<open>The file can be read and its first line that is not blank is the blanket disable
  comment: the files \<open>filterFilesWithDisableComment\<close> deletes.\<close>

definition hasDisableComment :: "fs \<Rightarrow> path \<Rightarrow> bool" where
  "hasDisableComment d file =
     (case d file of None \<Rightarrow> False | Some text \<Rightarrow> skipFile (readline [] text))"

text \<open>
  What the loop \<open>filterEntries\<close> makes of the entries it visits, by recursion over
  them and without the updates by key: the error raised, if any, and the entries then.
\<close>

fun filteredEntries ::
  "fs \<Rightarrow> (string \<times> path list) list \<Rightarrow> error option \<times> (string \<times> path list) list" where
  "filteredEntries d [] = (None, [])"
| "filteredEntries d ((ln, files) # rest) =
     (case filterFiles d files files of
        (Some e, files') \<Rightarrow> (Some e, (ln, files') # rest)
      | (None, files') \<Rightarrow>
          (case filteredEntries d rest of
             (raised, rest') \<Rightarrow> (raised, if files' = [] then rest' else (ln, files') # rest')))"

text \<open>A message with a count of errors.\<close>

fun isErrorCount :: "message \<Rightarrow> bool" where
  "isErrorCount (Log_errors_previous n) = True"
| "isErrorCount (Log_errors_current n) = True"
| "isErrorCount m = False"

text \<open>From the first world to the second the console has grown, by messages without a
  count of errors.\<close>

definition printsNoCount :: "world \<Rightarrow> world \<Rightarrow> bool" where
  "printsNoCount w w' =
     (\<exists>printed. console w' = console w @ printed \<and> filter isErrorCount printed = [])"

section \<open>Inputs of the examples\<close>

text \<open>
  Three lint engines: one finds every file clean, one is rejected, and one reports one
  error of the rule \<open>r\<close> on line 1 of every file, whatever the file holds (a syntax
  error is reported so, also under a disable comment).
\<close>

definition cleanEngine :: "unit option \<Rightarrow> path list \<Rightarrow> fs \<Rightarrow> error + lint_result list" where
  "cleanEngine config fileList d =
     Inr (map (\<lambda>f. \<lparr>source = f, errored = False, warnings = []\<rparr>) fileList)"

definition rejectedEngine :: "unit option \<Rightarrow> path list \<Rightarrow> fs \<Rightarrow> error + lint_result list" where
  "rejectedEngine config fileList d = Inl (LintError ''lint failed'')"

definition oneErrorEngine :: "unit option \<Rightarrow> path list \<Rightarrow> fs \<Rightarrow> error + lint_result list" where
  "oneErrorEngine config fileList d =
     Inr (map (\<lambda>f. \<lparr>source = f, errored = True,
                     warnings = [\<lparr>severity = ''error'', line = 1, endLine = 1, rule = ''r''\<rparr>]\<rparr>)
            fileList)"

text \<open>The patterns \<open>a.css\<close> and \<open>b.css\<close> match the files of these names, and a
  configuration always parses.\<close>

definition exampleGlob :: "string \<Rightarrow> path list" where
  "exampleGlob pattern =
     (if pattern = ''a.css'' then [''a.css''] else if pattern = ''b.css'' then [''b.css''] else [])"

definition exampleParse :: "string \<Rightarrow> unit option" where
  "exampleParse content = Some ()"

text \<open>A project with the manifest, the configuration and two style sheets; \<open>a.css\<close>
  begins with the blanket disable comment.\<close>

definition exampleDisk :: "string \<Rightarrow> fs" where
  "exampleDisk manifest =
     map_of [(''.stylelintignore'', manifest),
             (''.stylelintrc.json'', ''{}''),
             (''a.css'', ''/* stylelint-disable */'' @ [CHR 0x0A] @ ''.a { color: red }''),
             (''b.css'', ''.b { color: red }'')]"

section \<open>Keys: rendering and reading line numbers\<close>

lemma of_char_digitChar: "d < 10 \<Longrightarrow> (of_char (digitChar d) :: nat) = 48 + d"
  by (simp add: digitChar_def)

lemma isDigit_digitChar: "d < 10 \<Longrightarrow> isDigit (digitChar d)"
  by (simp add: isDigit_def of_char_digitChar)

lemma toString_nonempty: "toString n \<noteq> []"
  by (subst toString.simps) simp

lemma toString_digits: "list_all isDigit (toString n)"
proof (induction n rule: toString.induct)
  case (1 n)
  show ?case
  proof (cases "n < 10")
    case True
    then show ?thesis by (subst toString.simps) (simp add: isDigit_digitChar)
  next
    case False
    with 1 show ?thesis by (subst toString.simps) (simp add: isDigit_digitChar)
  qed
qed

lemma digitsValue_snoc: "digitsValue (cs @ [c]) = 10 * digitsValue cs + (of_char c - 48)"
  by (simp add: digitsValue_def)

lemma digitsValue_toString: "digitsValue (toString n) = n"
proof (induction n rule: toString.induct)
  case (1 n)
  show ?case
  proof (cases "n < 10")
    case True
    then show ?thesis
      by (subst toString.simps) (simp add: digitsValue_def of_char_digitChar)
  next
    case False
    with 1 have "digitsValue (toString (n div 10)) = n div 10" by simp
    with False show ?thesis
      by (subst toString.simps) (simp add: digitsValue_snoc of_char_digitChar)
  qed
qed

lemma Number_toString: "Number (Some (toString n)) = Some (int n)"
  by (simp add: Number_def toString_nonempty toString_digits digitsValue_toString)

lemma bar_not_digit: "\<not> isDigit CHR ''|''"
  by (simp add: isDigit_def)

lemma bar_notin_toString: "CHR ''|'' \<notin> set (toString n)"
  using toString_digits [of n] bar_not_digit by (auto simp: list_all_iff)

lemma split_nonempty: "split sep s \<noteq> []"
  by (induction s) (auto split: list.splits)

lemma split_no_sep: "sep \<notin> set s \<Longrightarrow> split sep s = [s]"
  by (induction s) auto

lemma split_append_sep: "sep \<notin> set a \<Longrightarrow> split sep (a @ sep # b) = a # split sep b"
  by (induction a) (auto split: list.splits)

lemma split_key: "split CHR ''|'' (key l e) = [toString l, toString e]"
  by (simp add: key_def split_append_sep split_no_sep bar_notin_toString)

lemma startLineOf_key: "startLineOf (key l e) = Some (int l)"
  by (simp add: startLineOf_def split_key at_def Number_toString)

lemma endLineOf_key: "endLineOf (key l e) = Some (int e)"
  by (simp add: endLineOf_def split_key at_def Number_toString)

lemma key_inject: "key l e = key l' e' \<longleftrightarrow> l = l' \<and> e = e'"
proof
  assume h: "key l e = key l' e'"
  have "startLineOf (key l e) = startLineOf (key l' e')" using h by simp
  moreover have "endLineOf (key l e) = endLineOf (key l' e')" using h by simp
  ultimately show "l = l' \<and> e = e'" by (simp add: startLineOf_key endLineOf_key)
qed simp

section \<open>Map and Set\<close>

lemma map_of_Map_set: "map_of (Map_set k v m) = (map_of m)(k \<mapsto> v)"
  by (induction m) (auto simp: fun_eq_iff)

lemma keys_Map_set:
  "map fst (Map_set k v m) = (if k \<in> set (map fst m) then map fst m else map fst m @ [k])"
  by (induction m) auto

lemma dom_Map_set: "fst ` set (Map_set k v m) = insert k (fst ` set m)"
  by (induction m) auto

lemma Map_set_twice: "Map_set k v (Map_set k v' m) = Map_set k v m"
  by (induction m) auto

lemma set_Set_add: "set (Set_add x s) = insert x (set s)"
  by (auto simp: Set_add_def)

lemma distinct_Set_add: "distinct s \<Longrightarrow> distinct (Set_add x s)"
  by (simp add: Set_add_def)

section \<open>The collection of the planner\<close>

lemma collectWarning_eq:
  "collectWarning acc w =
     (if severity w \<noteq> ''error'' then acc
      else Map_set (key (line w) (endLine w))
             (Set_add (rule w) (case map_of acc (key (line w) (endLine w)) of None \<Rightarrow> [] | Some r \<Rightarrow> r))
             acc)"
proof (cases "map_of acc (key (line w) (endLine w))")
  case None
  then have "key (line w) (endLine w) \<notin> fst ` set acc" by (simp add: map_of_eq_None_iff)
  with None show ?thesis
    by (simp add: collectWarning_def Map_has_def Map_get_def map_of_Map_set Map_set_twice)
next
  case (Some r)
  then have "key (line w) (endLine w) \<in> fst ` set acc" by (force dest: map_of_SomeD)
  with Some show ?thesis
    by (simp add: collectWarning_def Map_has_def Map_get_def)
qed

lemma collection_snoc:
  "helperCollectionFilesErrorsFromWarningsArray (ws @ [w]) =
     collectWarning (helperCollectionFilesErrorsFromWarningsArray ws) w"
  by (simp add: helperCollectionFilesErrorsFromWarningsArray_def)

lemma collection_filter:
  "foldl collectWarning acc (filter (\<lambda>w. severity w = ''error'') ws) = foldl collectWarning acc ws"
  by (induction ws arbitrary: acc) (auto simp: collectWarning_def)

lemma collection_keys:
  "fst ` set (helperCollectionFilesErrorsFromWarningsArray ws) =
     {key (line w) (endLine w) | w. w \<in> set ws \<and> severity w = ''error''}"
proof (induction ws rule: rev_induct)
  case Nil
  then show ?case by (simp add: helperCollectionFilesErrorsFromWarningsArray_def)
next
  case (snoc w ws)
  then show ?case
    by (auto simp: collection_snoc collectWarning_eq dom_Map_set)
qed

lemma collection_keys_snoc:
  "map fst (helperCollectionFilesErrorsFromWarningsArray (ws @ [w])) =
     (if severity w = ''error'' \<and>
         key (line w) (endLine w) \<notin> set (map fst (helperCollectionFilesErrorsFromWarningsArray ws))
      then map fst (helperCollectionFilesErrorsFromWarningsArray ws) @ [key (line w) (endLine w)]
      else map fst (helperCollectionFilesErrorsFromWarningsArray ws))"
  by (simp add: collection_snoc collectWarning_eq keys_Map_set)

lemma collection_distinct: "distinct (map fst (helperCollectionFilesErrorsFromWarningsArray ws))"
proof (induction ws rule: rev_induct)
  case Nil
  then show ?case by (simp add: helperCollectionFilesErrorsFromWarningsArray_def)
next
  case (snoc w ws)
  then show ?case
    by (simp add: collection_snoc collectWarning_eq keys_Map_set)
qed

lemma collection_rules:
  "map_of (helperCollectionFilesErrorsFromWarningsArray ws) k = Some rules \<Longrightarrow>
     distinct rules \<and>
     set rules = {rule w | w. w \<in> set ws \<and> severity w = ''error'' \<and> key (line w) (endLine w) = k}"
proof (induction ws arbitrary: rules rule: rev_induct)
  case Nil
  then show ?case by (simp add: helperCollectionFilesErrorsFromWarningsArray_def)
next
  case (snoc w ws)
  let ?c = "helperCollectionFilesErrorsFromWarningsArray ws"
  show ?case
  proof (cases "severity w = ''error''")
    case False
    with snoc.prems have "map_of ?c k = Some rules"
      by (simp add: collection_snoc collectWarning_eq)
    from snoc.IH [OF this] False show ?thesis by auto
  next
    case True
    show ?thesis
    proof (cases "key (line w) (endLine w) = k")
      case False
      with snoc.prems True have "map_of ?c k = Some rules"
        by (simp add: collection_snoc collectWarning_eq map_of_Map_set)
      from snoc.IH [OF this] False show ?thesis by auto
    next
      case kk: True
      show ?thesis
      proof (cases "map_of ?c k")
        case None
        then have "k \<notin> fst ` set ?c" by (simp add: map_of_eq_None_iff)
        then have none: "\<And>w'. w' \<in> set ws \<Longrightarrow> severity w' = ''error'' \<Longrightarrow> key (line w') (endLine w') \<noteq> k"
          by (auto simp: collection_keys)
        from snoc.prems True kk None have "rules = [rule w]"
          by (simp add: collection_snoc collectWarning_eq map_of_Map_set Set_add_def)
        with True kk none show ?thesis by auto
      next
        case (Some r)
        from snoc.IH [OF Some] have d: "distinct r"
          and s: "set r = {rule w' | w'. w' \<in> set ws \<and> severity w' = ''error'' \<and> key (line w') (endLine w') = k}"
          by simp_all
        from snoc.prems True kk Some have "rules = Set_add (rule w) r"
          by (simp add: collection_snoc collectWarning_eq map_of_Map_set)
        with d s True kk show ?thesis
          by (auto simp: set_Set_add distinct_Set_add)
      qed
    qed
  qed
qed

section \<open>The sort\<close>

lemma insertSorted_insort_key:
  "(\<And>y. y \<in> set ys \<Longrightarrow> (ToIntegerOrInfinity (compareFn x y) > 0) = (f x > f y)) \<Longrightarrow>
     insertSorted compareFn x ys = insort_key f x ys"
  for f :: "'a \<Rightarrow> int"
  by (induction ys) auto

lemma Array_sort_sort_key:
  "(\<And>x y. x \<in> set xs \<Longrightarrow> y \<in> set xs \<Longrightarrow>
       (ToIntegerOrInfinity (compareFn x y) > 0) = (f x > f y)) \<Longrightarrow>
     Array_sort compareFn xs = sort_key f xs"
  for f :: "'a \<Rightarrow> int"
proof (induction xs)
  case Nil
  then show ?case by (simp add: Array_sort_def)
next
  case (Cons x xs)
  have "Array_sort compareFn xs = sort_key f xs"
    using Cons.prems by (intro Cons.IH) simp_all
  moreover have "insertSorted compareFn x (sort_key f xs) = insort_key f x (sort_key f xs)"
    using Cons.prems by (intro insertSorted_insort_key) simp_all
  ultimately show ?case by (simp add: Array_sort_def)
qed

text \<open>The start line an entry is sorted by.\<close>

lemma compareEntries_key:
  "compareEntries (key l e, r) (key l' e', r') = Some (int l - int l')"
  by (simp add: compareEntries_def startLineOf_key)

lemma set_insertSorted: "set (insertSorted c x ys) = insert x (set ys)"
  by (induction ys) auto

lemma set_Array_sort: "set (Array_sort c xs) = set xs"
  by (induction xs) (simp_all add: Array_sort_def set_insertSorted)

lemma length_insertSorted: "length (insertSorted c x ys) = Suc (length ys)"
  by (induction ys) auto

lemma length_Array_sort: "length (Array_sort c xs) = length xs"
  by (induction xs) (simp_all add: Array_sort_def length_insertSorted)

lemma distinct_map_insertSorted:
  "distinct (map g (insertSorted c x ys)) = (g x \<notin> g ` set ys \<and> distinct (map g ys))"
  by (induction ys) (auto simp: set_insertSorted)

lemma distinct_map_Array_sort: "distinct (map g (Array_sort c xs)) = distinct (map g xs)"
  by (induction xs) (simp_all add: Array_sort_def distinct_map_insertSorted set_Array_sort[unfolded Array_sort_def])


lemma collection_key_form:
  "p \<in> set (helperCollectionFilesErrorsFromWarningsArray ws) \<Longrightarrow> \<exists>l e. fst p = key l e"
proof -
  assume "p \<in> set (helperCollectionFilesErrorsFromWarningsArray ws)"
  then have "fst p \<in> fst ` set (helperCollectionFilesErrorsFromWarningsArray ws)" by simp
  then show ?thesis unfolding collection_keys by blast
qed

lemma compareEntries_startLineNumber:
  assumes "\<exists>l e. fst p = key l e" and "\<exists>l e. fst q = key l e"
  shows "(ToIntegerOrInfinity (compareEntries p q) > 0) = (startLineNumber p > startLineNumber q)"
proof -
  from assms obtain l e l' e' where "fst p = key l e" and "fst q = key l' e'" by blast
  then show ?thesis
    by (simp add: compareEntries_def startLineNumber_def startLineOf_key ToIntegerOrInfinity_def)
qed

lemma plan_sort_key:
  "plan ws = sort_key startLineNumber (helperCollectionFilesErrorsFromWarningsArray ws)"
  unfolding plan_def helperSortedEntiresFromCollectionFilesErrors_def
  by (intro Array_sort_sort_key compareEntries_startLineNumber collection_key_form)

lemma set_plan: "set (plan ws) = set (helperCollectionFilesErrorsFromWarningsArray ws)"
  by (simp add: plan_sort_key)

lemma distinct_keys_plan: "distinct (map fst (plan ws))"
  by (simp add: plan_def helperSortedEntiresFromCollectionFilesErrors_def
      distinct_map_Array_sort collection_distinct)

lemma plan_filter_errors: "plan (filter (\<lambda>w. severity w = ''error'') ws) = plan ws"
  by (simp add: plan_def helperCollectionFilesErrorsFromWarningsArray_def collection_filter)

lemma plan_rules:
  assumes "(k, rules) \<in> set (plan ws)"
  shows "distinct rules \<and>
     set rules = {rule w | w. w \<in> set ws \<and> severity w = ''error'' \<and> key (line w) (endLine w) = k}"
proof -
  from assms have "(k, rules) \<in> set (helperCollectionFilesErrorsFromWarningsArray ws)"
    by (simp add: set_plan)
  then have "map_of (helperCollectionFilesErrorsFromWarningsArray ws) k = Some rules"
    by (simp add: collection_distinct)
  then show ?thesis by (rule collection_rules)
qed

lemma plan_example:
  "plan [\<lparr>severity = ''error'', line = 1, endLine = 1, rule = ''a''\<rparr>,
         \<lparr>severity = ''error'', line = 1, endLine = 1, rule = ''b''\<rparr>,
         \<lparr>severity = ''error'', line = 3, endLine = 3, rule = ''c''\<rparr>] =
     [(''1|1'', [''a'', ''b'']), (''3|3'', [''c''])]"
  by code_simp

text \<open>
  Claim C3 (planner grouping). Warnings whose severity is not \<open>error\<close> are discarded:
  the plan of a warning list is the plan of its errors. The keys of the plan are exactly
  the keys \<open>line|endLine\<close> of the errors, a key stands for one pair of lines only,
  and no key occurs twice. The rules stored under a key are, without repetition, the rules
  of the errors with that pair of lines. For the errors (1,1,a), (1,1,b), (3,3,c) the plan is
  (1,1,{a,b}) and then (3,3,{c}).
\<close>

theorem planner_grouping:
  "plan ws = plan (filter (\<lambda>w. severity w = ''error'') ws) \<and>
   fst ` set (plan ws) = {key (line w) (endLine w) | w. w \<in> set ws \<and> severity w = ''error''} \<and>
   (key l e = key l' e' \<longleftrightarrow> l = l' \<and> e = e') \<and>
   distinct (map fst (plan ws)) \<and>
   (\<forall>(k, rules) \<in> set (plan ws). distinct rules \<and>
      set rules = {rule w | w. w \<in> set ws \<and> severity w = ''error'' \<and> key (line w) (endLine w) = k}) \<and>
   plan [\<lparr>severity = ''error'', line = 1, endLine = 1, rule = ''a''\<rparr>,
         \<lparr>severity = ''error'', line = 1, endLine = 1, rule = ''b''\<rparr>,
         \<lparr>severity = ''error'', line = 3, endLine = 3, rule = ''c''\<rparr>] =
     [(''1|1'', [''a'', ''b'']), (''3|3'', [''c''])]"
proof (intro conjI)
  show "plan ws = plan (filter (\<lambda>w. severity w = ''error'') ws)"
    by (simp add: plan_filter_errors)
  show "fst ` set (plan ws) = {key (line w) (endLine w) | w. w \<in> set ws \<and> severity w = ''error''}"
    by (simp add: set_plan collection_keys)
  show "key l e = key l' e' \<longleftrightarrow> l = l' \<and> e = e'"
    by (rule key_inject)
  show "distinct (map fst (plan ws))"
    by (rule distinct_keys_plan)
  show "\<forall>(k, rules) \<in> set (plan ws). distinct rules \<and>
      set rules = {rule w | w. w \<in> set ws \<and> severity w = ''error'' \<and> key (line w) (endLine w) = k}"
    using plan_rules by blast
  show "plan [\<lparr>severity = ''error'', line = 1, endLine = 1, rule = ''a''\<rparr>,
         \<lparr>severity = ''error'', line = 1, endLine = 1, rule = ''b''\<rparr>,
         \<lparr>severity = ''error'', line = 3, endLine = 3, rule = ''c''\<rparr>] =
     [(''1|1'', [''a'', ''b'']), (''3|3'', [''c''])]"
    by (rule plan_example)
qed

text \<open>
  The grouping at four warnings on the lines 5 to 7: the warning of severity
  \<open>warning\<close> is left out and the repeated rule \<open>r\<close> is stored once.
\<close>

theorem planner_grouping_witness:
  "(''5|7'', [''r'', ''q'']) \<in>
     set (plan [\<lparr>severity = ''error'', line = 5, endLine = 7, rule = ''r''\<rparr>,
                \<lparr>severity = ''warning'', line = 5, endLine = 7, rule = ''s''\<rparr>,
                \<lparr>severity = ''error'', line = 5, endLine = 7, rule = ''q''\<rparr>,
                \<lparr>severity = ''error'', line = 5, endLine = 7, rule = ''r''\<rparr>]) \<and>
   set [''r'', ''q''] =
     {rule w | w. w \<in> set [\<lparr>severity = ''error'', line = 5, endLine = 7, rule = ''r''\<rparr>,
                \<lparr>severity = ''warning'', line = 5, endLine = 7, rule = ''s''\<rparr>,
                \<lparr>severity = ''error'', line = 5, endLine = 7, rule = ''q''\<rparr>,
                \<lparr>severity = ''error'', line = 5, endLine = 7, rule = ''r''\<rparr>] \<and>
        severity w = ''error'' \<and> key (line w) (endLine w) = ''5|7''}"
proof -
  let ?ws = "[\<lparr>severity = ''error'', line = 5, endLine = 7, rule = ''r''\<rparr>,
                \<lparr>severity = ''warning'', line = 5, endLine = 7, rule = ''s''\<rparr>,
                \<lparr>severity = ''error'', line = 5, endLine = 7, rule = ''q''\<rparr>,
                \<lparr>severity = ''error'', line = 5, endLine = 7, rule = ''r''\<rparr>]"
  have p: "plan ?ws = [(''5|7'', [''r'', ''q''])]" by code_simp
  then have m: "(''5|7'', [''r'', ''q'']) \<in> set (plan ?ws)" by simp
  from planner_grouping [of ?ws] have
    "\<forall>(k, rules) \<in> set (plan ?ws). distinct rules \<and>
      set rules = {rule w | w. w \<in> set ?ws \<and> severity w = ''error'' \<and> key (line w) (endLine w) = k}"
    by blast
  with m have "set [''r'', ''q''] = {rule w | w. w \<in> set ?ws \<and> severity w = ''error'' \<and> key (line w) (endLine w) = ''5|7''}"
    by blast
  with m show ?thesis by blast
qed

text \<open>
  Claim C6 as stated fails: the key is the pair of start and end line, so two groups with
  the start line 1 and different end lines are two entries of the plan.
\<close>

theorem plan_same_startLine_counterexample:
  "plan [\<lparr>severity = ''error'', line = 1, endLine = 3, rule = ''a''\<rparr>,
         \<lparr>severity = ''error'', line = 1, endLine = 1, rule = ''b''\<rparr>] =
     [(''1|3'', [''a'']), (''1|1'', [''b''])] \<and>
   map startLineNumber
     (plan [\<lparr>severity = ''error'', line = 1, endLine = 3, rule = ''a''\<rparr>,
            \<lparr>severity = ''error'', line = 1, endLine = 1, rule = ''b''\<rparr>]) = [1, 1]"
  by code_simp

text \<open>
  Claim C6, amended (plan ordering). The plan is sorted ascending by start line. The sort is
  stable: the entries with one start line keep the order in which the collection holds
  them, and the collection holds its keys in the order of their first occurrence in the
  warnings, since a warning adds its key at the end when it is an error with a new key and
  leaves the keys as they are otherwise. No two entries share the same pair of start and
  end line.
\<close>

theorem plan_ordering:
  "sorted (map startLineNumber (plan ws)) \<and>
   filter (\<lambda>entry. startLineNumber entry = n) (plan ws) =
     filter (\<lambda>entry. startLineNumber entry = n) (helperCollectionFilesErrorsFromWarningsArray ws) \<and>
   map fst (helperCollectionFilesErrorsFromWarningsArray (ws @ [w])) =
     (if severity w = ''error'' \<and>
         key (line w) (endLine w) \<notin> set (map fst (helperCollectionFilesErrorsFromWarningsArray ws))
      then map fst (helperCollectionFilesErrorsFromWarningsArray ws) @ [key (line w) (endLine w)]
      else map fst (helperCollectionFilesErrorsFromWarningsArray ws)) \<and>
   distinct (map fst (plan ws)) \<and>
   fst ` set (plan ws) = {key (line w) (endLine w) | w. w \<in> set ws \<and> severity w = ''error''} \<and>
   (key l e = key l' e' \<longleftrightarrow> l = l' \<and> e = e') \<and>
   startLineNumber (key l e, rules) = int l"
proof (intro conjI)
  show "sorted (map startLineNumber (plan ws))"
    by (simp add: plan_sort_key)
  show "filter (\<lambda>entry. startLineNumber entry = n) (plan ws) =
     filter (\<lambda>entry. startLineNumber entry = n) (helperCollectionFilesErrorsFromWarningsArray ws)"
    by (simp add: plan_sort_key sort_key_stable)
  show "map fst (helperCollectionFilesErrorsFromWarningsArray (ws @ [w])) =
     (if severity w = ''error'' \<and>
         key (line w) (endLine w) \<notin> set (map fst (helperCollectionFilesErrorsFromWarningsArray ws))
      then map fst (helperCollectionFilesErrorsFromWarningsArray ws) @ [key (line w) (endLine w)]
      else map fst (helperCollectionFilesErrorsFromWarningsArray ws))"
    by (rule collection_keys_snoc)
  show "distinct (map fst (plan ws))"
    by (rule distinct_keys_plan)
  show "fst ` set (plan ws) = {key (line w) (endLine w) | w. w \<in> set ws \<and> severity w = ''error''}"
    by (simp add: set_plan collection_keys)
  show "key l e = key l' e' \<longleftrightarrow> l = l' \<and> e = e'"
    by (rule key_inject)
  show "startLineNumber (key l e, rules) = int l"
    by (simp add: startLineNumber_def startLineOf_key ToIntegerOrInfinity_def)
qed

section \<open>The writer\<close>

lemma splice_in_range:
  "0 \<le> i \<Longrightarrow> i \<le> int (length arr) \<Longrightarrow>
     Array_splice (Some i) item arr = take (nat i) arr @ item # drop (nat i) arr"
  by (simp add: Array_splice_def ToIntegerOrInfinity_def Let_def min_def)

lemma insertComments_block_key:
  "insertComments True (buf, c) (key l e, rules) =
     (Array_splice (Some (int e + 1 + c)) (helperCommentDisableFromArrayRules rules ''enable'')
        (Array_splice (Some (int l - 1 + c)) (helperCommentDisableFromArrayRules rules ''disable'') buf),
      c + 2)"
  by (simp add: insertComments_def startLineOf_key endLineOf_key)

lemma insertComments_single_key:
  "insertComments False (buf, c) (key l e, rules) =
     (Array_splice (Some (int l - 1 + c)) (helperCommentDisableFromArrayRules rules ''disable-next-line'') buf,
      c + 1)"
  by (simp add: insertComments_def startLineOf_key)

lemma length_splice: "length (Array_splice i item arr) = Suc (length arr)"
  by (simp add: Array_splice_def Let_def)

lemma take_after_insert:
  "i \<le> length xs \<Longrightarrow>
     take (Suc (i + n)) (take i xs @ d # drop i xs) = take i xs @ d # take n (drop i xs)"
  by (simp add: min_absorb2)

lemma drop_after_insert:
  "i \<le> length xs \<Longrightarrow> drop (Suc (i + n)) (take i xs @ d # drop i xs) = drop (i + n) xs"
  by (simp add: min_absorb2 add.commute)

lemma block_bracket:
  assumes "0 \<le> c" and "1 \<le> l" and "l \<le> e" and "int e + c \<le> int (length buf)"
  shows "fst (insertComments True (buf, c) (key l e, rules)) =
           take (l - 1 + nat c) buf @
           helperCommentDisableFromArrayRules rules ''disable'' #
           take (e - l + 1) (drop (l - 1 + nat c) buf) @
           helperCommentDisableFromArrayRules rules ''enable'' #
           drop (e + nat c) buf"
proof -
  let ?D = "helperCommentDisableFromArrayRules rules ''disable''"
  let ?E = "helperCommentDisableFromArrayRules rules ''enable''"
  let ?i = "l - 1 + nat c"
  let ?n = "e - l + 1"
  let ?B1 = "take ?i buf @ ?D # drop ?i buf"
  have i: "nat (int l - 1 + c) = ?i" using assms by simp
  have ile: "?i \<le> length buf" using assms by linarith
  have s1: "Array_splice (Some (int l - 1 + c)) ?D buf = ?B1"
    using assms by (subst splice_in_range) (simp_all add: i)
  have j: "nat (int e + 1 + c) = Suc (?i + ?n)" using assms by linarith
  have jn: "?i + ?n = e + nat c" using assms by linarith
  have nn: "0 \<le> int e + 1 + c" using assms by simp
  have le: "int e + 1 + c \<le> int (length ?B1)" using assms ile by simp
  have s2: "Array_splice (Some (int e + 1 + c)) ?E ?B1 =
      take (Suc (?i + ?n)) ?B1 @ ?E # drop (Suc (?i + ?n)) ?B1"
    using splice_in_range [OF nn le, of ?E] by (simp only: j)
  have t: "take (Suc (?i + ?n)) ?B1 = take ?i buf @ ?D # take ?n (drop ?i buf)"
    using ile by (rule take_after_insert)
  have dr: "drop (Suc (?i + ?n)) ?B1 = drop (e + nat c) buf"
    using drop_after_insert [OF ile, of ?n ?D] by (simp only: jn)
  show ?thesis
    by (simp only: insertComments_block_key fst_conv s1 s2 t dr) simp
qed

lemma addComments_snoc:
  "addComments u buf (p @ [x]) = insertComments u (addComments u buf p) x"
  by (simp add: addComments_def)

lemma counter_single: "snd (addComments False buf p) = int (length p)"
  by (induction p rule: rev_induct)
    (simp_all add: addComments_def insertComments_def Let_def)

lemma counter_block: "snd (addComments True buf p) = 2 * int (length p)"
  by (induction p rule: rev_induct)
    (simp_all add: addComments_def insertComments_def Let_def)

lemma length_single: "length (fst (addComments False buf p)) = length buf + length p"
  by (induction p rule: rev_induct)
    (simp_all add: addComments_def insertComments_def Let_def length_splice)

lemma startLineOf_of_number:
  "1 \<le> startLineNumber entry \<Longrightarrow> startLineOf (fst entry) = Some (startLineNumber entry)"
  by (cases "startLineOf (fst entry)") (simp_all add: startLineNumber_def ToIntegerOrInfinity_def)

lemma single_step:
  assumes "1 \<le> startLineNumber x" and "startLineNumber x \<le> int (length buf)"
  shows "fst (addComments False buf (p @ [x])) =
           take (nat (startLineNumber x) - 1 + length p) (fst (addComments False buf p)) @
           helperCommentDisableFromArrayRules (snd x) ''disable-next-line'' #
           drop (nat (startLineNumber x) - 1 + length p) (fst (addComments False buf p))"
proof -
  let ?B = "fst (addComments False buf p)"
  let ?i = "startLineNumber x - 1 + int (length p)"
  have st: "addComments False buf p = (?B, int (length p))"
    using counter_single [of buf p] by (cases "addComments False buf p") simp
  have i0: "0 \<le> ?i" using assms by simp
  have i1: "?i \<le> int (length ?B)" using assms by (simp add: length_single)
  have n: "nat ?i = nat (startLineNumber x) - 1 + length p" using assms by linarith
  have "fst (addComments False buf (p @ [x])) =
      Array_splice (Some ?i) (helperCommentDisableFromArrayRules (snd x) ''disable-next-line'') ?B"
    by (subst addComments_snoc, subst st)
      (simp add: insertComments_def Let_def startLineOf_of_number [OF assms(1)])
  then show ?thesis
    using splice_in_range [OF i0 i1] by (simp only: n)
qed

lemma single_tail:
  assumes "\<forall>x\<in>set p. 1 \<le> startLineNumber x \<and> startLineNumber x \<le> int (length buf)"
    and "\<forall>x\<in>set p. nat (startLineNumber x) - 1 \<le> m"
  shows "drop (m + length p) (fst (addComments False buf p)) = drop m buf"
  using assms
proof (induction p rule: rev_induct)
  case Nil
  then show ?case by (simp add: addComments_def)
next
  case (snoc x p)
  let ?B = "fst (addComments False buf p)"
  let ?i = "nat (startLineNumber x) - 1 + length p"
  from snoc.prems have b: "1 \<le> startLineNumber x" "startLineNumber x \<le> int (length buf)"
    and m: "nat (startLineNumber x) - 1 \<le> m" by simp_all
  have ile: "?i \<le> length ?B" using b length_single [of buf p] by linarith
  have ih: "drop (m + length p) ?B = drop m buf"
    using snoc.prems by (intro snoc.IH) simp_all
  have e: "m + length (p @ [x]) = Suc (?i + (m - (nat (startLineNumber x) - 1)))"
    using m by simp
  have e2: "?i + (m - (nat (startLineNumber x) - 1)) = m + length p"
    using m by simp
  have "drop (m + length (p @ [x])) (fst (addComments False buf (p @ [x]))) =
      drop (Suc (?i + (m - (nat (startLineNumber x) - 1))))
        (take ?i ?B @ helperCommentDisableFromArrayRules (snd x) ''disable-next-line'' # drop ?i ?B)"
    by (simp only: single_step [OF b] e)
  also have "\<dots> = drop (?i + (m - (nat (startLineNumber x) - 1))) ?B"
    using ile by (rule drop_after_insert)
  also have "\<dots> = drop m buf"
    by (simp only: e2 ih)
  finally show ?case .
qed

lemma single_comment_position:
  assumes "sorted (map startLineNumber p)"
    and "\<forall>x\<in>set p. 1 \<le> startLineNumber x \<and> startLineNumber x \<le> int (length buf)"
    and "k < length p"
  shows "fst (addComments False buf p) ! (nat (startLineNumber (p ! k)) - 1 + k) =
           helperCommentDisableFromArrayRules (snd (p ! k)) ''disable-next-line''"
  using assms
proof (induction p rule: rev_induct)
  case Nil
  then show ?case by simp
next
  case (snoc x p)
  let ?B = "fst (addComments False buf p)"
  let ?i = "nat (startLineNumber x) - 1 + length p"
  from snoc.prems have b: "1 \<le> startLineNumber x" "startLineNumber x \<le> int (length buf)"
    by simp_all
  have ile: "?i \<le> length ?B" using b length_single [of buf p] by linarith
  have len: "length (take ?i ?B) = ?i" using ile by simp
  show ?case
  proof (cases "k < length p")
    case True
    from snoc.prems(1) have srt: "sorted (map startLineNumber p)"
      and le: "\<forall>y\<in>set p. startLineNumber y \<le> startLineNumber x"
      by (simp_all add: sorted_append)
    from le True have "startLineNumber (p ! k) \<le> startLineNumber x" by simp
    with True have q: "nat (startLineNumber (p ! k)) - 1 + k < ?i" by linarith
    have ih: "?B ! (nat (startLineNumber (p ! k)) - 1 + k) =
        helperCommentDisableFromArrayRules (snd (p ! k)) ''disable-next-line''"
      using srt snoc.prems(2) True by (intro snoc.IH) simp_all
    have "(take ?i ?B @ helperCommentDisableFromArrayRules (snd x) ''disable-next-line'' # drop ?i ?B)
        ! (nat (startLineNumber (p ! k)) - 1 + k) = ?B ! (nat (startLineNumber (p ! k)) - 1 + k)"
      using q len by (simp add: nth_append)
    with ih True show ?thesis
      by (simp add: single_step [OF b] nth_append)
  next
    case False
    with snoc.prems(3) have k: "k = length p" by simp
    have "(take ?i ?B @ helperCommentDisableFromArrayRules (snd x) ''disable-next-line'' # drop ?i ?B) ! ?i
        = helperCommentDisableFromArrayRules (snd x) ''disable-next-line''"
      using len by (metis nth_append_length)
    then show ?thesis
      by (simp only: single_step [OF b] k nth_append_length)
  qed
qed

lemma single_line_position:
  assumes "sorted (map startLineNumber p)"
    and "\<forall>x\<in>set p. 1 \<le> startLineNumber x \<and> startLineNumber x \<le> int (length buf)"
    and "k < length p"
    and "\<forall>j. k < j \<and> j < length p \<longrightarrow> startLineNumber (p ! k) < startLineNumber (p ! j)"
  shows "fst (addComments False buf p) ! (nat (startLineNumber (p ! k)) + k) =
           buf ! (nat (startLineNumber (p ! k)) - 1)"
  using assms
proof (induction p rule: rev_induct)
  case Nil
  then show ?case by simp
next
  case (snoc x p)
  let ?B = "fst (addComments False buf p)"
  let ?i = "nat (startLineNumber x) - 1 + length p"
  let ?c = "helperCommentDisableFromArrayRules (snd x) ''disable-next-line''"
  from snoc.prems have b: "1 \<le> startLineNumber x" "startLineNumber x \<le> int (length buf)"
    by simp_all
  have ile: "?i < length ?B" using b length_single [of buf p] by linarith
  have len: "length (take ?i ?B) = ?i" using ile by simp
  from snoc.prems(1) have srt: "sorted (map startLineNumber p)"
    and le: "\<forall>y\<in>set p. startLineNumber y \<le> startLineNumber x"
    by (simp_all add: sorted_append)
  show ?case
  proof (cases "k < length p")
    case True
    from snoc.prems(4) [rule_format, of "length p"] True
    have "startLineNumber (p ! k) < startLineNumber x" by (simp add: nth_append)
    with True have q: "nat (startLineNumber (p ! k)) + k < ?i" by linarith
    have later: "\<forall>j. k < j \<and> j < length p \<longrightarrow> startLineNumber (p ! k) < startLineNumber (p ! j)"
    proof (intro allI impI)
      fix j assume j: "k < j \<and> j < length p"
      with snoc.prems(4) [rule_format, of j] True show "startLineNumber (p ! k) < startLineNumber (p ! j)"
        by (simp add: nth_append)
    qed
    have ih: "?B ! (nat (startLineNumber (p ! k)) + k) = buf ! (nat (startLineNumber (p ! k)) - 1)"
      using srt snoc.prems(2) True later by (intro snoc.IH) simp_all
    have "(take ?i ?B @ ?c # drop ?i ?B) ! (nat (startLineNumber (p ! k)) + k) =
        ?B ! (nat (startLineNumber (p ! k)) + k)"
      using q len by (simp add: nth_append)
    with ih True show ?thesis
      by (simp add: single_step [OF b] nth_append)
  next
    case False
    with snoc.prems(3) have k: "k = length p" by simp
    have bounds: "\<forall>y\<in>set p. 1 \<le> startLineNumber y \<and> startLineNumber y \<le> int (length buf)"
      using snoc.prems(2) by simp
    have "\<forall>y\<in>set p. nat (startLineNumber y) - 1 \<le> nat (startLineNumber x) - 1"
      using le by auto
    from single_tail [OF bounds this]
    have tl: "drop ?i ?B = drop (nat (startLineNumber x) - 1) buf" .
    have lt: "nat (startLineNumber x) - 1 < length buf" using b by linarith
    have "(take ?i ?B @ ?c # drop ?i ?B) ! (Suc ?i) = (drop ?i ?B) ! 0"
      using len by (simp add: nth_append)
    also have "\<dots> = buf ! (nat (startLineNumber x) - 1)"
      using lt by (simp only: tl) simp
    finally have "(take ?i ?B @ ?c # drop ?i ?B) ! (Suc ?i) = buf ! (nat (startLineNumber x) - 1)" .
    moreover have "nat (startLineNumber x) + length p = Suc ?i" using b by linarith
    ultimately show ?thesis
      by (simp only: single_step [OF b] k nth_append_length)
  qed
qed

lemma startLineOf_literals:
  "startLineOf ''2|2'' = Some 2" "endLineOf ''2|2'' = Some 2" "startLineOf ''4|4'' = Some 4"
  by code_simp+

lemma comment_literals:
  "helperCommentDisableFromArrayRules [''x''] ''disable'' = ''/* stylelint-disable x */''"
  "helperCommentDisableFromArrayRules [''x''] ''enable'' = ''/* stylelint-enable x */''"
  "helperCommentDisableFromArrayRules [''x''] ''disable-next-line'' = ''/* stylelint-disable-next-line x */''"
  "helperCommentDisableFromArrayRules [''y''] ''disable-next-line'' = ''/* stylelint-disable-next-line y */''"
  by (simp_all add: helperCommentDisableFromArrayRules_def)

lemma comment_xy:
  "helperCommentDisableFromArrayRules [''x'', ''y''] ''disable'' = ''/* stylelint-disable x,y */''"
  "helperCommentDisableFromArrayRules [''x'', ''y''] ''enable'' = ''/* stylelint-enable x,y */''"
  by (simp_all add: helperCommentDisableFromArrayRules_def)

lemma splice_literal:
  "Array_splice (Some 1) c (x0 # xs) = x0 # c # xs"
  "Array_splice (Some 3) c (x0 # x1 # x2 # xs) = x0 # x1 # x2 # c # xs"
  "Array_splice (Some 4) c (x0 # x1 # x2 # x3 # xs) = x0 # x1 # x2 # x3 # c # xs"
  by (simp_all add: Array_splice_def ToIntegerOrInfinity_def Let_def)

lemma block_example:
  "addComments True [line1, line2, line3] [(''2|2'', [''x''])] =
     ([line1, ''/* stylelint-disable x */'', line2, ''/* stylelint-enable x */'', line3], 2)"
  by (simp add: addComments_def insertComments_def startLineOf_literals comment_literals splice_literal)

lemma single_example:
  "addComments False [line1, line2, line3, line4, line5] [(''2|2'', [''x'']), (''4|4'', [''y''])] =
     ([line1, ''/* stylelint-disable-next-line x */'', line2, line3,
       ''/* stylelint-disable-next-line y */'', line4, line5], 2)"
  by (simp add: addComments_def insertComments_def startLineOf_literals comment_literals splice_literal)

text \<open>
  Claim C1 (block mode). For a file of three lines and the plan \<open>[(2,2,{x})]\<close> the
  writer produces the five lines: line 1, the disable comment, line 2, the enable comment,
  line 3. In general, one entry inserts the disable comment at index
  \<open>startLine - 1 + counter\<close> and then the enable comment at index
  \<open>endLine + 1 + counter\<close>, both with the counter of before the entry, and adds 2 to
  the counter. When both indices lie in the array, the lines \<open>startLine\<close> to
  \<open>endLine\<close> (counted behind the \<open>counter\<close> lines inserted before) stand
  between the two comments and every other line keeps its order.
\<close>

theorem block_mode_writer:
  "addComments True [line1, line2, line3] [(''2|2'', [''x''])] =
     ([line1, ''/* stylelint-disable x */'', line2, ''/* stylelint-enable x */'', line3], 2) \<and>
   insertComments True (buf, c) (key l e, rules) =
     (Array_splice (Some (int e + 1 + c)) (helperCommentDisableFromArrayRules rules ''enable'')
        (Array_splice (Some (int l - 1 + c)) (helperCommentDisableFromArrayRules rules ''disable'') buf),
      c + 2) \<and>
   (0 \<le> c \<and> 1 \<le> l \<and> l \<le> e \<and> int e + c \<le> int (length buf) \<longrightarrow>
      fst (insertComments True (buf, c) (key l e, rules)) =
        take (l - 1 + nat c) buf @
        helperCommentDisableFromArrayRules rules ''disable'' #
        take (e - l + 1) (drop (l - 1 + nat c) buf) @
        helperCommentDisableFromArrayRules rules ''enable'' #
        drop (e + nat c) buf) \<and>
   snd (addComments True buf p) = 2 * int (length p)"
proof (intro conjI impI)
  show "addComments True [line1, line2, line3] [(''2|2'', [''x''])] =
     ([line1, ''/* stylelint-disable x */'', line2, ''/* stylelint-enable x */'', line3], 2)"
    by (rule block_example)
  show "insertComments True (buf, c) (key l e, rules) =
     (Array_splice (Some (int e + 1 + c)) (helperCommentDisableFromArrayRules rules ''enable'')
        (Array_splice (Some (int l - 1 + c)) (helperCommentDisableFromArrayRules rules ''disable'') buf),
      c + 2)"
    by (rule insertComments_block_key)
  show "snd (addComments True buf p) = 2 * int (length p)"
    by (rule counter_block)
next
  assume "0 \<le> c \<and> 1 \<le> l \<and> l \<le> e \<and> int e + c \<le> int (length buf)"
  then show "fst (insertComments True (buf, c) (key l e, rules)) =
        take (l - 1 + nat c) buf @
        helperCommentDisableFromArrayRules rules ''disable'' #
        take (e - l + 1) (drop (l - 1 + nat c) buf) @
        helperCommentDisableFromArrayRules rules ''enable'' #
        drop (e + nat c) buf"
    by (intro block_bracket) simp_all
qed

text \<open>
  One entry for the lines 2 to 3 with the rules x and y, after two earlier insertions.
\<close>

theorem block_mode_writer_witness:
  "fst (insertComments True ([''p'', ''/* c */'', ''/* d */'', ''q'', ''r'', ''s''], 2) (key 2 3, [''x'', ''y''])) =
     [''p'', ''/* c */'', ''/* d */'', ''/* stylelint-disable x,y */'', ''q'', ''r'',
      ''/* stylelint-enable x,y */'', ''s'']"
proof -
  have h: "(0::int) \<le> 2 \<and> (1::nat) \<le> 2 \<and> (2::nat) \<le> 3 \<and>
      int 3 + 2 \<le> int (length [''p'', ''/* c */'', ''/* d */'', ''q'', ''r'', ''s''])"
    by simp
  from block_mode_writer [of _ _ _ "[''p'', ''/* c */'', ''/* d */'', ''q'', ''r'', ''s'']" 2 2 3 "[''x'', ''y'']"] h
  have "fst (insertComments True ([''p'', ''/* c */'', ''/* d */'', ''q'', ''r'', ''s''], 2) (key 2 3, [''x'', ''y''])) =
        take (2 - 1 + nat 2) [''p'', ''/* c */'', ''/* d */'', ''q'', ''r'', ''s''] @
        helperCommentDisableFromArrayRules [''x'', ''y''] ''disable'' #
        take (3 - 2 + 1) (drop (2 - 1 + nat 2) [''p'', ''/* c */'', ''/* d */'', ''q'', ''r'', ''s'']) @
        helperCommentDisableFromArrayRules [''x'', ''y''] ''enable'' #
        drop (3 + nat 2) [''p'', ''/* c */'', ''/* d */'', ''q'', ''r'', ''s'']"
    by blast
  then show ?thesis
    by (simp add: comment_xy)
qed

text \<open>
  Claim C2 (single-line mode). One entry inserts one disable-next-line comment at index
  \<open>startLine - 1 + counter\<close> and adds 1 to the counter. After a plan sorted ascending
  by start line, with start lines in the file, the counter is the number of entries, the file
  has grown by one line per entry, the comment of entry \<open>k\<close> (counted from 0) stands
  at index \<open>startLine - 1 + k\<close>, and it is followed by the line that was line
  \<open>startLine\<close> when the later entries have greater start lines. For a file of five
  lines and the plan \<open>[(2,2,{x}), (4,4,{y})]\<close> the comments stand at the indices 1 and
  4 of the seven lines, before the lines that were lines 2 and 4.
\<close>

theorem single_line_mode_writer:
  "insertComments False (buf, c) (key l e, rules) =
     (Array_splice (Some (int l - 1 + c))
        (helperCommentDisableFromArrayRules rules ''disable-next-line'') buf,
      c + 1) \<and>
   snd (addComments False buf p) = int (length p) \<and>
   length (fst (addComments False buf p)) = length buf + length p \<and>
   (sorted (map startLineNumber p) \<and>
    (\<forall>x\<in>set p. 1 \<le> startLineNumber x \<and> startLineNumber x \<le> int (length buf)) \<longrightarrow>
      (\<forall>k<length p.
         fst (addComments False buf p) ! (nat (startLineNumber (p ! k)) - 1 + k) =
           helperCommentDisableFromArrayRules (snd (p ! k)) ''disable-next-line'' \<and>
         ((\<forall>j. k < j \<and> j < length p \<longrightarrow> startLineNumber (p ! k) < startLineNumber (p ! j)) \<longrightarrow>
            fst (addComments False buf p) ! (nat (startLineNumber (p ! k)) + k) =
              buf ! (nat (startLineNumber (p ! k)) - 1)))) \<and>
   addComments False [line1, line2, line3, line4, line5] [(''2|2'', [''x'']), (''4|4'', [''y''])] =
     ([line1, ''/* stylelint-disable-next-line x */'', line2, line3,
       ''/* stylelint-disable-next-line y */'', line4, line5], 2)"
proof (intro conjI impI allI)
  show "insertComments False (buf, c) (key l e, rules) =
     (Array_splice (Some (int l - 1 + c))
        (helperCommentDisableFromArrayRules rules ''disable-next-line'') buf,
      c + 1)"
    by (rule insertComments_single_key)
  show "snd (addComments False buf p) = int (length p)"
    by (rule counter_single)
  show "length (fst (addComments False buf p)) = length buf + length p"
    by (rule length_single)
  show "addComments False [line1, line2, line3, line4, line5] [(''2|2'', [''x'']), (''4|4'', [''y''])] =
     ([line1, ''/* stylelint-disable-next-line x */'', line2, line3,
       ''/* stylelint-disable-next-line y */'', line4, line5], 2)"
    by (rule single_example)
next
  fix k
  assume h: "sorted (map startLineNumber p) \<and>
    (\<forall>x\<in>set p. 1 \<le> startLineNumber x \<and> startLineNumber x \<le> int (length buf))"
    and k: "k < length p"
  then show "fst (addComments False buf p) ! (nat (startLineNumber (p ! k)) - 1 + k) =
           helperCommentDisableFromArrayRules (snd (p ! k)) ''disable-next-line''"
    by (intro single_comment_position) simp_all
  assume "\<forall>j. k < j \<and> j < length p \<longrightarrow> startLineNumber (p ! k) < startLineNumber (p ! j)"
  with h k show "fst (addComments False buf p) ! (nat (startLineNumber (p ! k)) + k) =
              buf ! (nat (startLineNumber (p ! k)) - 1)"
    by (intro single_line_position) simp_all
qed

lemma startLineNumber_literals:
  "startLineNumber (''2|2'', r) = 2" "startLineNumber (''4|4'', r) = 4"
  by (simp_all add: startLineNumber_def startLineOf_literals ToIntegerOrInfinity_def)

text \<open>
  Both entries of the plan \<open>[(2,2,{x}), (4,4,{y})]\<close> on a file of five lines.
\<close>

theorem single_line_mode_writer_witness:
  "fst (addComments False [''a'', ''b'', ''c'', ''d'', ''e''] [(''2|2'', [''x'']), (''4|4'', [''y''])]) ! 1 =
     ''/* stylelint-disable-next-line x */'' \<and>
   fst (addComments False [''a'', ''b'', ''c'', ''d'', ''e''] [(''2|2'', [''x'']), (''4|4'', [''y''])]) ! 2 = ''b'' \<and>
   fst (addComments False [''a'', ''b'', ''c'', ''d'', ''e''] [(''2|2'', [''x'']), (''4|4'', [''y''])]) ! 4 =
     ''/* stylelint-disable-next-line y */'' \<and>
   fst (addComments False [''a'', ''b'', ''c'', ''d'', ''e''] [(''2|2'', [''x'']), (''4|4'', [''y''])]) ! 5 = ''d''"
proof -
  let ?buf = "[''a'', ''b'', ''c'', ''d'', ''e'']"
  let ?p = "[(''2|2'', [''x'']), (''4|4'', [''y''])]"
  have h: "sorted (map startLineNumber ?p) \<and>
    (\<forall>x\<in>set ?p. 1 \<le> startLineNumber x \<and> startLineNumber x \<le> int (length ?buf))"
    by (simp add: startLineNumber_literals)
  from single_line_mode_writer [of ?buf _ _ _ _ ?p] h
  have a: "\<forall>k<length ?p.
         fst (addComments False ?buf ?p) ! (nat (startLineNumber (?p ! k)) - 1 + k) =
           helperCommentDisableFromArrayRules (snd (?p ! k)) ''disable-next-line'' \<and>
         ((\<forall>j. k < j \<and> j < length ?p \<longrightarrow> startLineNumber (?p ! k) < startLineNumber (?p ! j)) \<longrightarrow>
            fst (addComments False ?buf ?p) ! (nat (startLineNumber (?p ! k)) + k) =
              ?buf ! (nat (startLineNumber (?p ! k)) - 1))"
    by blast
  have later: "\<forall>j. (0::nat) < j \<and> j < length ?p \<longrightarrow> startLineNumber (?p ! 0) < startLineNumber (?p ! j)"
    by (auto simp: startLineNumber_literals less_Suc_eq)
  from a [rule_format, of 0] later
  have first: "fst (addComments False ?buf ?p) ! 1 = ''/* stylelint-disable-next-line x */'' \<and>
      fst (addComments False ?buf ?p) ! 2 = ''b''"
    by (simp add: startLineNumber_literals comment_literals)
  from a [rule_format, of 1]
  have second: "fst (addComments False ?buf ?p) ! 4 = ''/* stylelint-disable-next-line y */'' \<and>
      fst (addComments False ?buf ?p) ! 5 = ''d''"
    by (simp add: startLineNumber_literals comment_literals)
  from first second show ?thesis by blast
qed

section \<open>The filter of the files with a disable comment\<close>

text \<open>
  White space outside ASCII before and inside the disable comment: a file that begins with a
  byte order mark and then the comment is skipped, and so is one with a line of a no-break
  space first and the comment written with a no-break space and an ideographic space. A
  comment on the second line that is not blank does not count.
\<close>

lemma white_space_before_disable_comment:
  "skipFile (readline [] ([CHR 0xEF, CHR 0xBB, CHR 0xBF] @ ''/* stylelint-disable */'' @
      [CHR 0x0A] @ ''.a { color: red }''))"
  "skipFile (readline [] ([CHR 0xC2, CHR 0xA0, CHR 0x0A] @ ''/*'' @ [CHR 0xC2, CHR 0xA0] @
      ''stylelint-disable'' @ [CHR 0xE3, CHR 0x80, CHR 0x80] @ ''*/'' @ [CHR 0x0D, CHR 0x0A] @
      ''.a { color: red }''))"
  "\<not> skipFile (readline [] (''.a { color: red }'' @ [CHR 0x0A] @ ''/* stylelint-disable */''))"
  by code_simp+

lemma Set_delete_JString: "Set_delete (JString file) s = filter (\<lambda>x. x \<noteq> file) s"
  by (simp add: Set_delete_def)

lemma Set_delete_JObject: "Set_delete (JObject r) s = s"
  by (simp add: Set_delete_def)

lemma hasDisableComment_readable: "hasDisableComment d x \<Longrightarrow> d x \<noteq> None"
  by (auto simp: hasDisableComment_def split: option.splits)

lemma filterFiles_result:
  "snd (filterFiles d v s) =
     [x \<leftarrow> s. \<not> (x \<in> set (takeWhile (\<lambda>f. d f \<noteq> None) v) \<and> hasDisableComment d x)]"
proof (induction v arbitrary: s)
  case Nil
  then show ?case by simp
next
  case (Cons f0 rest)
  show ?case
  proof (cases "d f0")
    case None
    then show ?thesis by simp
  next
    case (Some content)
    then have h: "hasDisableComment d f0 = skipFile (readline [] content)"
      by (simp add: hasDisableComment_def)
    show ?thesis
    proof (cases "skipFile (readline [] content)")
      case True
      with Some h Cons.IH [of "filter (\<lambda>x. x \<noteq> f0) s"] show ?thesis
        by (auto simp: Set_delete_JString intro!: filter_cong)
    next
      case False
      with Some h Cons.IH [of s] show ?thesis
        by (auto intro!: filter_cong)
    qed
  qed
qed

lemma filterFiles_raised:
  "fst (filterFiles d v s) = map_option ENOENT (find (\<lambda>f. d f = None) v)"
  by (induction v arbitrary: s) (auto split: option.splits)

lemma find_filter_keep:
  "(\<And>x. P x \<Longrightarrow> Q x) \<Longrightarrow> find P (filter Q xs) = find P xs"
  by (induction xs) auto

lemma takeWhile_filter_keep:
  "(\<And>x. \<not> P x \<Longrightarrow> Q x) \<Longrightarrow> takeWhile P (filter Q xs) = filter Q (takeWhile P xs)"
  by (induction xs) auto

lemma filterFiles_twice:
  "filterFiles d (snd (filterFiles d s s)) (snd (filterFiles d s s)) = filterFiles d s s"
proof -
  let ?ex = "\<lambda>f. d f \<noteq> None"
  let ?Q = "\<lambda>x. \<not> (x \<in> set (takeWhile ?ex s) \<and> hasDisableComment d x)"
  define r where "r = filter ?Q s"
  have r: "snd (filterFiles d s s) = r"
    unfolding r_def by (rule filterFiles_result)
  have keep: "\<And>x. d x = None \<Longrightarrow> ?Q x"
    using hasDisableComment_readable by blast
  have "find (\<lambda>f. d f = None) r = find (\<lambda>f. d f = None) s"
    unfolding r_def by (rule find_filter_keep) (use keep in blast)
  then have 1: "fst (filterFiles d r r) = fst (filterFiles d s s)"
    by (simp only: filterFiles_raised)
  have tw: "takeWhile ?ex r = filter ?Q (takeWhile ?ex s)"
    unfolding r_def by (rule takeWhile_filter_keep) (use keep in blast)
  have "snd (filterFiles d r r) = [x \<leftarrow> r. \<not> (x \<in> set (takeWhile ?ex r) \<and> hasDisableComment d x)]"
    by (rule filterFiles_result)
  also have "\<dots> = r"
  proof (rule filter_True, intro ballI)
    fix x
    assume "x \<in> set r"
    have "x \<in> set (filter ?Q (takeWhile ?ex s)) \<Longrightarrow> \<not> hasDisableComment d x"
      by simp
    then show "\<not> (x \<in> set (takeWhile ?ex r) \<and> hasDisableComment d x)"
      unfolding tw by blast
  qed
  finally have 2: "snd (filterFiles d r r) = snd (filterFiles d s s)"
    by (simp only: r)
  from 1 2 show ?thesis
    by (simp only: r prod_eq_iff)
qed

lemma filterFiles_all_readable:
  "\<forall>f\<in>set s. d f \<noteq> None \<Longrightarrow>
     filterFiles d s s = (None, [x \<leftarrow> s. \<not> hasDisableComment d x])"
proof -
  assume a: "\<forall>f\<in>set s. d f \<noteq> None"
  then have tw: "takeWhile (\<lambda>f. d f \<noteq> None) s = s" by (simp add: takeWhile_eq_all_conv)
  have "find (\<lambda>f. d f = None) s = None" using a by (simp add: find_None_iff)
  then have "fst (filterFiles d s s) = None" by (simp add: filterFiles_raised)
  moreover have "snd (filterFiles d s s) = [x \<leftarrow> s. \<not> hasDisableComment d x]"
    by (simp only: filterFiles_result tw) (auto intro!: filter_cong)
  ultimately show ?thesis by (simp add: prod_eq_iff)
qed

section \<open>The filter on the collection\<close>

lemma Map_set_fresh_middle:
  "ln \<notin> fst ` set pre \<Longrightarrow> Map_set ln v (pre @ (ln, u) # rest) = pre @ (ln, v) # rest"
  by (induction pre) auto

lemma Map_delete_middle:
  "ln \<notin> fst ` set pre \<Longrightarrow> ln \<notin> fst ` set rest \<Longrightarrow>
     Map_delete ln (pre @ (ln, v) # rest) = pre @ rest"
proof -
  assume a: "ln \<notin> fst ` set pre" and b: "ln \<notin> fst ` set rest"
  have "filter (\<lambda>p. fst p \<noteq> ln) pre = pre"
    by (rule filter_True) (use a in auto)
  moreover have "filter (\<lambda>p. fst p \<noteq> ln) rest = rest"
    by (rule filter_True) (use b in auto)
  ultimately show ?thesis by (simp add: Map_delete_def)
qed

lemma filterEntries_filteredEntries:
  "distinct (map fst (pre @ es)) \<Longrightarrow>
     filterEntries d es (pre @ es) = (fst (filteredEntries d es), pre @ snd (filteredEntries d es))"
proof (induction es arbitrary: pre)
  case Nil
  then show ?case by simp
next
  case (Cons entry rest)
  obtain ln files where entry: "entry = (ln, files)" by (cases entry)
  obtain raised files' where ff: "filterFiles d files files = (raised, files')"
    by (cases "filterFiles d files files")
  from Cons.prems entry have fresh: "ln \<notin> fst ` set pre" "ln \<notin> fst ` set rest"
    and dist: "distinct (map fst (pre @ rest))" by auto
  have upd: "Map_set ln files' (pre @ (ln, files) # rest) = pre @ (ln, files') # rest"
    using fresh by (simp add: Map_set_fresh_middle)
  show ?case
  proof (cases raised)
    case (Some e)
    with ff upd entry show ?thesis by simp
  next
    case None
    show ?thesis
    proof (cases "files' = []")
      case True
      have "filterEntries d rest (pre @ rest) =
          (fst (filteredEntries d rest), pre @ snd (filteredEntries d rest))"
        using dist by (rule Cons.IH)
      with None True ff upd entry fresh show ?thesis
        by (simp add: Map_delete_middle split: prod.splits)
    next
      case False
      from Cons.prems entry have "distinct (map fst ((pre @ [(ln, files')]) @ rest))" by auto
      from Cons.IH [OF this]
      have "filterEntries d rest (pre @ (ln, files') # rest) =
          (fst (filteredEntries d rest), pre @ (ln, files') # snd (filteredEntries d rest))"
        by simp
      with None False ff upd entry show ?thesis
        by (simp split: prod.splits)
    qed
  qed
qed

lemma filteredEntries_keys:
  "set (map fst (snd (filteredEntries d es))) \<subseteq> set (map fst es) \<and>
   (distinct (map fst es) \<longrightarrow> distinct (map fst (snd (filteredEntries d es))))"
proof (induction es)
  case Nil
  then show ?case by simp
next
  case (Cons entry rest)
  obtain ln files where entry: "entry = (ln, files)" by (cases entry)
  obtain raised files' where ff: "filterFiles d files files = (raised, files')"
    by (cases "filterFiles d files files")
  obtain raised' rest' where fe: "filteredEntries d rest = (raised', rest')"
    by (cases "filteredEntries d rest")
  from Cons.IH fe have "set (map fst rest') \<subseteq> set (map fst rest)"
    and "distinct (map fst rest) \<longrightarrow> distinct (map fst rest')" by simp_all
  with entry ff fe show ?case
    by (cases raised) auto
qed

lemma filteredEntries_twice:
  "filteredEntries d (snd (filteredEntries d es)) = filteredEntries d es"
proof (induction es)
  case Nil
  then show ?case by simp
next
  case (Cons entry rest)
  obtain ln files where entry: "entry = (ln, files)" by (cases entry)
  obtain raised files' where ff: "filterFiles d files files = (raised, files')"
    by (cases "filterFiles d files files")
  obtain raised' rest' where fe: "filteredEntries d rest = (raised', rest')"
    by (cases "filteredEntries d rest")
  from filterFiles_twice [of d files] ff
  have ff2: "filterFiles d files' files' = (raised, files')" by simp
  from Cons.IH fe have fe2: "filteredEntries d rest' = (raised', rest')" by simp
  show ?case
  proof (cases raised)
    case (Some e)
    with entry ff ff2 show ?thesis by simp
  next
    case None
    with entry ff ff2 fe fe2 show ?thesis by simp
  qed
qed

lemma filterEntries_twice:
  assumes "distinct (map fst c)"
  shows "filterEntries d (snd (filterEntries d c c)) (snd (filterEntries d c c)) =
           filterEntries d c c"
proof -
  have one: "filterEntries d c c = filteredEntries d c"
    using filterEntries_filteredEntries [of "[]" c d] assms by simp
  have "distinct (map fst (snd (filteredEntries d c)))"
    using filteredEntries_keys [of d c] assms by simp
  then have "filterEntries d (snd (filteredEntries d c)) (snd (filteredEntries d c)) =
      filteredEntries d (snd (filteredEntries d c))"
    using filterEntries_filteredEntries [of "[]" "snd (filteredEntries d c)" d] by simp
  then show ?thesis
    by (simp add: one filteredEntries_twice)
qed

lemma disk_filterFilesWithDisableComment_delete:
  "disk (snd (filterFilesWithDisableComment_delete s w)) = disk w"
  by (simp add: filterFilesWithDisableComment_delete_def log_def split: option.splits prod.splits)

lemma fst_filterFilesWithDisableComment_delete:
  "fst (filterFilesWithDisableComment_delete s w) =
     map_option (\<lambda>files. snd (filterFiles (disk w) files files)) s"
  by (simp add: filterFilesWithDisableComment_delete_def split: option.splits prod.splits)

lemma disk_filterFilesWithDisableComment_compress:
  "disk (snd (filterFilesWithDisableComment_compress c w)) = disk w"
  by (simp add: filterFilesWithDisableComment_compress_def log_def split: option.splits prod.splits)

lemma fst_filterFilesWithDisableComment_compress:
  "fst (filterFilesWithDisableComment_compress c w) =
     map_option (\<lambda>entries. snd (filterEntries (disk w) entries entries)) c"
  by (simp add: filterFilesWithDisableComment_compress_def split: option.splits prod.splits)

text \<open>
  Claim C8 (the filter of the files with a disable comment is idempotent). Applied to its
  own result, with the file system as it is, the filter returns that result again: the
  second run deletes nothing. The filter leaves the file system as it is. When every file
  of the set can be read, the result is the files of the set without a blanket disable
  comment on their first line that is not blank: whether a file stays depends on that file
  only. The same holds of the filter on the collection of the compressing script, whose keys
  are distinct.
\<close>

theorem disable_comment_filter_idempotent:
  "fst (filterFilesWithDisableComment_delete
          (fst (filterFilesWithDisableComment_delete s w))
          (snd (filterFilesWithDisableComment_delete s w))) =
     fst (filterFilesWithDisableComment_delete s w) \<and>
   disk (snd (filterFilesWithDisableComment_delete s w)) = disk w \<and>
   ((\<forall>f\<in>set files. disk w f \<noteq> None) \<longrightarrow>
      fst (filterFilesWithDisableComment_delete (Some files) w) =
        Some [x \<leftarrow> files. \<not> hasDisableComment (disk w) x]) \<and>
   (distinct (map fst c) \<longrightarrow>
      fst (filterFilesWithDisableComment_compress
             (fst (filterFilesWithDisableComment_compress (Some c) w))
             (snd (filterFilesWithDisableComment_compress (Some c) w))) =
        fst (filterFilesWithDisableComment_compress (Some c) w)) \<and>
   disk (snd (filterFilesWithDisableComment_compress (Some c) w)) = disk w"
proof (intro conjI impI)
  show "fst (filterFilesWithDisableComment_delete
          (fst (filterFilesWithDisableComment_delete s w))
          (snd (filterFilesWithDisableComment_delete s w))) =
     fst (filterFilesWithDisableComment_delete s w)"
    by (cases s)
      (simp_all add: fst_filterFilesWithDisableComment_delete
        disk_filterFilesWithDisableComment_delete filterFiles_twice)
  show "disk (snd (filterFilesWithDisableComment_delete s w)) = disk w"
    by (rule disk_filterFilesWithDisableComment_delete)
  show "disk (snd (filterFilesWithDisableComment_compress (Some c) w)) = disk w"
    by (rule disk_filterFilesWithDisableComment_compress)
next
  assume "\<forall>f\<in>set files. disk w f \<noteq> None"
  then show "fst (filterFilesWithDisableComment_delete (Some files) w) =
        Some [x \<leftarrow> files. \<not> hasDisableComment (disk w) x]"
    by (simp add: fst_filterFilesWithDisableComment_delete filterFiles_all_readable)
next
  assume "distinct (map fst c)"
  then show "fst (filterFilesWithDisableComment_compress
             (fst (filterFilesWithDisableComment_compress (Some c) w))
             (snd (filterFilesWithDisableComment_compress (Some c) w))) =
        fst (filterFilesWithDisableComment_compress (Some c) w)"
    by (simp add: fst_filterFilesWithDisableComment_compress
        disk_filterFilesWithDisableComment_compress filterEntries_twice)
qed

text \<open>
  Two files, the first with the blanket disable comment: the set keeps the second, and
  the collection with the entries \<open>src/\<close> and \<open>a.css\<close> is filtered twice.
\<close>

theorem disable_comment_filter_idempotent_witness:
  "fst (filterFilesWithDisableComment_delete (Some [''a.css'', ''b.css''])
          \<lparr>disk = map_of [(''a.css'', ''/* stylelint-disable */'' @ [CHR 0x0A] @ ''.a { color: red }''),
                          (''b.css'', ''.b { color: red }'')],
           console = []\<rparr>) = Some [''b.css''] \<and>
   fst (filterFilesWithDisableComment_compress
          (fst (filterFilesWithDisableComment_compress
                  (Some [(''src/'', [''a.css'', ''b.css'']), (''a.css'', [''a.css''])])
                  \<lparr>disk = map_of [(''a.css'', ''/* stylelint-disable */'' @ [CHR 0x0A] @ ''.a { color: red }''),
                                  (''b.css'', ''.b { color: red }'')],
                   console = []\<rparr>))
          (snd (filterFilesWithDisableComment_compress
                  (Some [(''src/'', [''a.css'', ''b.css'']), (''a.css'', [''a.css''])])
                  \<lparr>disk = map_of [(''a.css'', ''/* stylelint-disable */'' @ [CHR 0x0A] @ ''.a { color: red }''),
                                  (''b.css'', ''.b { color: red }'')],
                   console = []\<rparr>))) =
     fst (filterFilesWithDisableComment_compress
            (Some [(''src/'', [''a.css'', ''b.css'']), (''a.css'', [''a.css''])])
            \<lparr>disk = map_of [(''a.css'', ''/* stylelint-disable */'' @ [CHR 0x0A] @ ''.a { color: red }''),
                            (''b.css'', ''.b { color: red }'')],
             console = []\<rparr>)"
proof -
  let ?d = "map_of [(''a.css'', ''/* stylelint-disable */'' @ [CHR 0x0A] @ ''.a { color: red }''),
                    (''b.css'', ''.b { color: red }'')]"
  let ?w = "\<lparr>disk = ?d, console = []\<rparr>"
  let ?files = "[''a.css'', ''b.css'']"
  let ?c = "[(''src/'', [''a.css'', ''b.css'']), (''a.css'', [''a.css''])]"
  have readable: "\<forall>f\<in>set ?files. disk ?w f \<noteq> None" by simp
  have keys: "distinct (map fst ?c)" by simp
  note t = disable_comment_filter_idempotent [of "Some ?files" ?w ?files ?c]
  from t readable have "fst (filterFilesWithDisableComment_delete (Some ?files) ?w) =
        Some [x \<leftarrow> ?files. \<not> hasDisableComment (disk ?w) x]"
    by blast
  moreover have "[x \<leftarrow> ?files. \<not> hasDisableComment (disk ?w) x] = [''b.css'']"
    by code_simp
  ultimately have 1: "fst (filterFilesWithDisableComment_delete (Some ?files) ?w) = Some [''b.css'']"
    by (simp only:)
  from t keys have 2: "fst (filterFilesWithDisableComment_compress
             (fst (filterFilesWithDisableComment_compress (Some ?c) ?w))
             (snd (filterFilesWithDisableComment_compress (Some ?c) ?w))) =
        fst (filterFilesWithDisableComment_compress (Some ?c) ?w)"
    by blast
  from 1 2 show ?thesis by blast
qed

lemma compress_filter_example:
  "fst (filterFilesWithDisableComment_compress
            (Some [(''src/'', [''a.css'', ''b.css'']), (''a.css'', [''a.css''])])
            \<lparr>disk = map_of [(''a.css'', ''/* stylelint-disable */'' @ [CHR 0x0A] @ ''.a { color: red }''),
                            (''b.css'', ''.b { color: red }'')],
             console = []\<rparr>) = Some [(''src/'', [''b.css''])]"
  by code_simp

section \<open>The filter of the files without errors\<close>

lemma deleteFilesWithoutErrors_same: "deleteFilesWithoutErrors files stylelintResults = files"
  unfolding deleteFilesWithoutErrors_def
  by (induction stylelintResults arbitrary: files) (simp_all add: Set_delete_JObject Let_def)

text \<open>
  Claim C4, the code at the failing input. \<open>files.delete(file)\<close> is given the lint
  result where the set holds paths, so the loop over the lint results deletes nothing,
  whatever the results say. A manifest with the one line \<open>b.css\<close>, whose file the
  engine finds clean, is rewritten with that line.
\<close>

theorem clean_file_stays_in_manifest:
  "deleteFilesWithoutErrors files stylelintResults = files \<and>
   cleanEngine None [''b.css''] d = Inr [\<lparr>source = ''b.css'', errored = False, warnings = []\<rparr>] \<and>
   fst (compressStylelintIgnore exampleParse exampleGlob cleanEngine ''.''
          \<lparr>disk = exampleDisk (''b.css'' @ [CHR 0x0A]), console = []\<rparr>) = Inr () \<and>
   disk (snd (compressStylelintIgnore exampleParse exampleGlob cleanEngine ''.''
                \<lparr>disk = exampleDisk (''b.css'' @ [CHR 0x0A]), console = []\<rparr>))
     ''.stylelintignore'' = Some (''b.css'' @ [CHR 0x0A])"
proof (intro conjI)
  show "deleteFilesWithoutErrors files stylelintResults = files"
    by (rule deleteFilesWithoutErrors_same)
  show "cleanEngine None [''b.css''] d = Inr [\<lparr>source = ''b.css'', errored = False, warnings = []\<rparr>]"
    by (simp add: cleanEngine_def)
  show "fst (compressStylelintIgnore exampleParse exampleGlob cleanEngine ''.''
          \<lparr>disk = exampleDisk (''b.css'' @ [CHR 0x0A]), console = []\<rparr>) = Inr ()"
    by code_simp
  show "disk (snd (compressStylelintIgnore exampleParse exampleGlob cleanEngine ''.''
                \<lparr>disk = exampleDisk (''b.css'' @ [CHR 0x0A]), console = []\<rparr>))
     ''.stylelintignore'' = Some (''b.css'' @ [CHR 0x0A])"
    by code_simp
qed

section \<open>Renaming the manifest and renaming it back\<close>

lemma rename_there:
  "d oldPath = Some content \<Longrightarrow>
     rename oldPath newPath d = Inr ((d(oldPath := None))(newPath \<mapsto> content))"
  by (simp add: rename_def)

lemma rename_missing: "d oldPath = None \<Longrightarrow> rename oldPath newPath d = Inl (ENOENT oldPath)"
  by (simp add: rename_def)

lemma rename_back:
  "rename ''hash'' ''.stylelintignore'' ((d(''.stylelintignore'' := None))(''hash'' \<mapsto> manifest)) =
     Inr ((d(''hash'' := None))(''.stylelintignore'' \<mapsto> manifest))"
  by (auto simp: rename_def fun_eq_iff)

text \<open>
  Claim C5, the code at the failing input. In \<open>getStylelintCountErrors\<close> nothing is
  caught: when the lint engine is rejected after the manifest was renamed, the function is
  left with the manifest under the name \<open>hash\<close> and no file under its own name.
\<close>

theorem count_errors_leaves_manifest_renamed:
  "d ''.stylelintignore'' = Some manifest \<and>
   lint stylelintConfigContent files ((d(''.stylelintignore'' := None))(''hash'' \<mapsto> manifest)) = Inl e \<longrightarrow>
     getStylelintCountErrors lint stylelintConfigContent (Some files) d =
       (Inl e, (d(''.stylelintignore'' := None))(''hash'' \<mapsto> manifest))"
  by (simp add: getStylelintCountErrors_def rename_there)

text \<open>
  The rejected engine on a project whose manifest holds \<open>b.css\<close>.
\<close>

theorem count_errors_leaves_manifest_renamed_witness:
  "fst (getStylelintCountErrors rejectedEngine None (Some [''b.css'']) (exampleDisk ''b.css'')) =
     Inl (LintError ''lint failed'') \<and>
   snd (getStylelintCountErrors rejectedEngine None (Some [''b.css'']) (exampleDisk ''b.css''))
     ''.stylelintignore'' = None \<and>
   snd (getStylelintCountErrors rejectedEngine None (Some [''b.css'']) (exampleDisk ''b.css''))
     ''hash'' = Some ''b.css''"
proof -
  have m: "exampleDisk ''b.css'' ''.stylelintignore'' = Some ''b.css''"
    by (simp add: exampleDisk_def)
  have r: "rejectedEngine None [''b.css'']
      ((exampleDisk ''b.css'')(''.stylelintignore'' := None, ''hash'' \<mapsto> ''b.css'')) =
      Inl (LintError ''lint failed'')"
    by (simp add: rejectedEngine_def)
  from count_errors_leaves_manifest_renamed
    [of "exampleDisk ''b.css''" "''b.css''" rejectedEngine None "[''b.css'']" "LintError ''lint failed''"] m r
  have "getStylelintCountErrors rejectedEngine None (Some [''b.css'']) (exampleDisk ''b.css'') =
       (Inl (LintError ''lint failed''),
        (exampleDisk ''b.css'')(''.stylelintignore'' := None, ''hash'' \<mapsto> ''b.css''))"
    by blast
  then show ?thesis by simp
qed

text \<open>The two other places that rename the manifest do rename it back.\<close>

lemma commentFile_keeps:
  "commentFile u mp file d = Inr d' \<Longrightarrow> d k \<noteq> None \<Longrightarrow> d' k \<noteq> None"
  by (auto simp: commentFile_def writeFile_def Let_def readFile_def split: if_splits option.splits)

lemma commentFiles_keeps:
  "commentFiles u mp results d = (raised, d') \<Longrightarrow> d k \<noteq> None \<Longrightarrow> d' k \<noteq> None"
proof (induction results arbitrary: d)
  case Nil
  then show ?case by simp
next
  case (Cons r rest)
  show ?case
  proof (cases "commentFile u mp r d")
    case (Inl e)
    with Cons.prems show ?thesis by simp
  next
    case (Inr d1)
    with Cons.prems have "commentFiles u mp rest d1 = (raised, d')" by simp
    moreover from Inr Cons.prems(2) have "d1 k \<noteq> None" by (rule commentFile_keeps)
    ultimately show ?thesis by (rule Cons.IH)
  qed
qed

lemma addingComments_renames_back:
  assumes "disk w ''.stylelintignore'' \<noteq> None"
  shows "disk (snd (addingCommentsWithStylelintErrors lint files mp cfg u w)) ''.stylelintignore'' \<noteq> None"
proof -
  from assms obtain manifest where m: "disk w ''.stylelintignore'' = Some manifest" by blast
  let ?d1 = "((disk w)(''.stylelintignore'' := None))(''hash'' \<mapsto> manifest)"
  let ?d2 = "((disk w)(''hash'' := None))(''.stylelintignore'' \<mapsto> manifest)"
  have r1: "rename ''.stylelintignore'' ''hash'' (disk w) = Inr ?d1"
    using m by (rule rename_there)
  have r2: "rename ''hash'' ''.stylelintignore'' ?d1 = Inr ?d2"
    by (rule rename_back)
  have raised_d1: "disk (snd (case rename ''hash'' ''.stylelintignore'' ?d1 of
        Inl e' \<Rightarrow> (Inl e', w\<lparr>disk := ?d1\<rparr>)
      | Inr d' \<Rightarrow> (Inr (), log (Error_adding_comments e) (w\<lparr>disk := d'\<rparr>)))) ''.stylelintignore'' \<noteq> None"
    for e
    by (simp only: r2) (simp add: log_def)
  show ?thesis
  proof (cases files)
    case None
    with r1 raised_d1 show ?thesis
      by (simp add: addingCommentsWithStylelintErrors_def tryAddingComments_def)
  next
    case (Some fl)
    show ?thesis
    proof (cases "lint cfg fl ?d1")
      case (Inl e)
      with Some r1 raised_d1 show ?thesis
        by (simp add: addingCommentsWithStylelintErrors_def tryAddingComments_def)
    next
      case (Inr results)
      obtain raised d' where cf: "commentFiles u mp results ?d2 = (raised, d')"
        by (cases "commentFiles u mp results ?d2")
      have k: "d' ''.stylelintignore'' \<noteq> None"
        using cf by (rule commentFiles_keeps) simp
      from Some Inr r1 r2 cf k show ?thesis
        by (cases raised)
          (auto simp: addingCommentsWithStylelintErrors_def tryAddingComments_def log_def rename_def
            split: option.splits)
    qed
  qed
qed

lemma filterEntriesWithoutErrors_manifest:
  assumes "d ''.stylelintignore'' \<noteq> None"
    and "filterEntriesWithoutErrors lint cfg entries c d = (raised, c', d')"
  shows "(raised = None \<longrightarrow> d' ''.stylelintignore'' \<noteq> None) \<and>
         (raised \<noteq> None \<longrightarrow> d' ''hash'' \<noteq> None)"
  using assms
proof (induction entries arbitrary: c d)
  case Nil
  then show ?case by simp
next
  case (Cons entry rest)
  obtain ln files where entry: "entry = (ln, files)" by (cases entry)
  from Cons.prems(1) obtain manifest where m: "d ''.stylelintignore'' = Some manifest" by blast
  let ?d1 = "(d(''.stylelintignore'' := None))(''hash'' \<mapsto> manifest)"
  let ?d2 = "(d(''hash'' := None))(''.stylelintignore'' \<mapsto> manifest)"
  have r1: "rename ''.stylelintignore'' ''hash'' d = Inr ?d1"
    using m by (rule rename_there)
  have r2: "rename ''hash'' ''.stylelintignore'' ?d1 = Inr ?d2"
    by (rule rename_back)
  show ?case
  proof (cases "lint cfg files ?d1")
    case (Inl e)
    with Cons.prems(2) entry r1 show ?thesis by auto
  next
    case (Inr results)
    let ?c = "if length (deleteFilesWithoutErrors files results) = 0
              then Map_delete ln (Map_set ln (deleteFilesWithoutErrors files results) c)
              else Map_set ln (deleteFilesWithoutErrors files results) c"
    from Cons.prems(2) entry r1 r2 Inr
    have "filterEntriesWithoutErrors lint cfg rest ?c ?d2 = (raised, c', d')"
      by (simp add: Let_def)
    moreover have "?d2 ''.stylelintignore'' \<noteq> None" by simp
    ultimately show ?thesis by (intro Cons.IH)
  qed
qed

lemma filterFilesWithoutErrors_renames_back:
  assumes "disk w ''.stylelintignore'' \<noteq> None"
  shows "disk (snd (snd (filterFilesWithoutErrors lint c cfg w))) ''.stylelintignore'' \<noteq> None"
proof (cases c)
  case None
  with assms show ?thesis
    by (auto simp: filterFilesWithoutErrors_def rename_def log_def split: option.splits)
next
  case (Some entries)
  obtain raised c' d' where f: "filterEntriesWithoutErrors lint cfg entries entries (disk w) = (raised, c', d')"
    by (cases "filterEntriesWithoutErrors lint cfg entries entries (disk w)")
  from filterEntriesWithoutErrors_manifest [OF assms f]
  have 1: "raised = None \<longrightarrow> d' ''.stylelintignore'' \<noteq> None"
    and 2: "raised \<noteq> None \<longrightarrow> d' ''hash'' \<noteq> None" by simp_all
  show ?thesis
  proof (cases raised)
    case None
    with Some f 1 show ?thesis by (simp add: filterFilesWithoutErrors_def)
  next
    case (Some e)
    with 2 obtain content where "d' ''hash'' = Some content" by blast
    with \<open>c = Some entries\<close> Some f show ?thesis
      by (simp add: filterFilesWithoutErrors_def rename_def log_def)
  qed
qed

section \<open>The manifest is emptied after each file that is written\<close>

lemma commentFile_errored:
  "errored file \<Longrightarrow> d (source file) = Some content \<Longrightarrow>
     commentFile u mp file d =
       Inr (writeFile mp []
              (writeFile (source file)
                 (join [CHR 0x0A] (fst (addComments u (split CHR 0x0A content) (plan (warnings file)))))
                 d))"
  by (simp add: commentFile_def readFile_def plan_def Let_def)

lemma commentFile_not_errored: "\<not> errored file \<Longrightarrow> commentFile u mp file d = Inr d"
  by (simp add: commentFile_def)

lemma commentFiles_none_errored:
  "\<forall>r\<in>set results. \<not> errored r \<Longrightarrow> commentFiles u mp results d = (None, d)"
  by (induction results) (simp_all add: commentFile_not_errored)

lemma addingComments_none_errored:
  assumes m: "disk w ''.stylelintignore'' = Some manifest"
    and l: "lint cfg files (((disk w)(''.stylelintignore'' := None))(''hash'' \<mapsto> manifest)) = Inr results"
    and n: "\<forall>r\<in>set results. \<not> errored r"
  shows "addingCommentsWithStylelintErrors lint (Some files) mp cfg u w =
           (Inr (), w\<lparr>disk := (disk w)(''hash'' := None)\<rparr>)"
proof -
  have "((disk w)(''hash'' := None))(''.stylelintignore'' \<mapsto> manifest) = (disk w)(''hash'' := None)"
    using m by (auto simp: fun_eq_iff)
  then show ?thesis
    using m l n
    by (simp add: addingCommentsWithStylelintErrors_def tryAddingComments_def rename_there
        rename_back commentFiles_none_errored)
qed

lemma commentFiles_skip_clean:
  "\<forall>x\<in>set pre. \<not> errored x \<Longrightarrow> commentFiles u mp (pre @ rest) d = commentFiles u mp rest d"
  by (induction pre) (simp_all add: commentFile_not_errored)

lemma commentFile_emptied:
  "commentFile u mp file d = Inr d' \<Longrightarrow> d mp = Some [] \<Longrightarrow> d' mp = Some []"
  by (auto simp: commentFile_def writeFile_def readFile_def Let_def
      split: if_splits option.splits)

lemma commentFiles_emptied:
  "commentFiles u mp results d = (raised, d') \<Longrightarrow> d mp = Some [] \<Longrightarrow> d' mp = Some []"
proof (induction results arbitrary: d)
  case Nil
  then show ?case by simp
next
  case (Cons r rest)
  show ?case
  proof (cases "commentFile u mp r d")
    case (Inl e)
    with Cons.prems show ?thesis by simp
  next
    case (Inr d1)
    with Cons.prems have "commentFiles u mp rest d1 = (raised, d')" by simp
    moreover from Inr Cons.prems(2) have "d1 mp = Some []" by (rule commentFile_emptied)
    ultimately show ?thesis by (rule Cons.IH)
  qed
qed

lemma commentFile_no_new_file:
  "commentFile u mp file d = Inr d' \<Longrightarrow> d k = None \<Longrightarrow> k \<noteq> mp \<Longrightarrow> d' k = None"
  by (auto simp: commentFile_def writeFile_def readFile_def Let_def
      split: if_splits option.splits)

lemma commentFiles_no_new_file:
  "commentFiles u mp results d = (raised, d') \<Longrightarrow> d k = None \<Longrightarrow> k \<noteq> mp \<Longrightarrow> d' k = None"
proof (induction results arbitrary: d)
  case Nil
  then show ?case by simp
next
  case (Cons r rest)
  show ?case
  proof (cases "commentFile u mp r d")
    case (Inl e)
    with Cons.prems show ?thesis by simp
  next
    case (Inr d1)
    with Cons.prems have "commentFiles u mp rest d1 = (raised, d')" by simp
    moreover from Inr Cons.prems(2,3) have "d1 k = None" by (rule commentFile_no_new_file)
    ultimately show ?thesis using Cons.prems(3) by (rule Cons.IH)
  qed
qed

text \<open>With the manifest there and the results of the engine, the pass leaves the file
  system as the loop over the results leaves it, whether the loop raises or not.\<close>

lemma addingComments_disk:
  assumes m: "disk w ''.stylelintignore'' = Some manifest"
    and l: "lint cfg files (((disk w)(''.stylelintignore'' := None))(''hash'' \<mapsto> manifest)) = Inr results"
  shows "addingCommentsWithStylelintErrors lint (Some files) ''.stylelintignore'' cfg u w =
           (case commentFiles u ''.stylelintignore'' results ((disk w)(''hash'' := None)) of
              (None, d) \<Rightarrow> (Inr (), w\<lparr>disk := d\<rparr>)
            | (Some e, d) \<Rightarrow> (Inl (ENOENT ''hash''), w\<lparr>disk := d\<rparr>))"
proof -
  let ?d2 = "(disk w)(''hash'' := None)"
  have d2: "((disk w)(''hash'' := None))(''.stylelintignore'' \<mapsto> manifest) = ?d2"
    using m by (auto simp: fun_eq_iff)
  have t: "tryAddingComments lint (Some files) ''.stylelintignore'' cfg u (disk w) =
      commentFiles u ''.stylelintignore'' results ?d2"
    using m l by (simp add: tryAddingComments_def rename_there rename_back d2)
  obtain raised d where c: "commentFiles u ''.stylelintignore'' results ?d2 = (raised, d)"
    by (cases "commentFiles u ''.stylelintignore'' results ?d2")
  have "d ''hash'' = None"
    using c by (rule commentFiles_no_new_file) simp_all
  then have r: "rename ''hash'' ''.stylelintignore'' d = Inl (ENOENT ''hash'')"
    by (rule rename_missing)
  show ?thesis
    by (cases raised) (simp_all add: addingCommentsWithStylelintErrors_def t c r)
qed

lemma addingComments_first_errored:
  assumes m: "disk w ''.stylelintignore'' = Some manifest"
    and l: "lint cfg files (((disk w)(''.stylelintignore'' := None))(''hash'' \<mapsto> manifest)) =
        Inr (pre @ r # post)"
    and pre: "\<forall>x\<in>set pre. \<not> errored x"
    and r: "errored r" "disk w (source r) = Some content" "source r \<noteq> ''hash''"
  shows "disk (snd (addingCommentsWithStylelintErrors lint (Some files) ''.stylelintignore'' cfg u w))
           ''.stylelintignore'' = Some []"
proof -
  let ?mp = "''.stylelintignore''"
  let ?d2 = "(disk w)(''hash'' := None)"
  have rd: "?d2 (source r) = Some content" using r by simp
  let ?d3 = "writeFile ?mp []
      (writeFile (source r)
         (join [CHR 0x0A] (fst (addComments u (split CHR 0x0A content) (plan (warnings r))))) ?d2)"
  have cf: "commentFile u ?mp r ?d2 = Inr ?d3"
    using r(1) rd by (rule commentFile_errored)
  obtain raised d where c: "commentFiles u ?mp post ?d3 = (raised, d)"
    by (cases "commentFiles u ?mp post ?d3")
  have e: "d ?mp = Some []"
    using c by (rule commentFiles_emptied) (simp add: writeFile_def)
  have "commentFiles u ?mp (pre @ r # post) ?d2 = (raised, d)"
    using pre cf c by (simp add: commentFiles_skip_clean)
  with e show ?thesis
    by (cases raised)
      (simp_all add: addingComments_disk [of w manifest lint cfg files "pre @ r # post" u, OF m l])
qed

lemma commentFiles_written:
  assumes "distinct (map source (filter errored rs))"
    and "\<forall>r\<in>set rs. errored r \<longrightarrow> d (source r) \<noteq> None \<and> source r \<noteq> mp"
  shows "\<exists>d'. commentFiles u mp rs d = (None, d') \<and>
     (\<forall>r\<in>set rs. \<forall>content. errored r \<and> d (source r) = Some content \<longrightarrow>
        d' (source r) =
          Some (join [CHR 0x0A] (fst (addComments u (split CHR 0x0A content) (plan (warnings r)))))) \<and>
     ((\<exists>r\<in>set rs. errored r) \<longrightarrow> d' mp = Some []) \<and>
     (\<forall>p. p \<noteq> mp \<and> p \<notin> source ` {r \<in> set rs. errored r} \<longrightarrow> d' p = d p)"
  using assms
proof (induction rs arbitrary: d)
  case Nil
  then show ?case by simp
next
  case (Cons r rest)
  show ?case
  proof (cases "errored r")
    case False
    from Cons.prems False have 1: "distinct (map source (filter errored rest))"
      and 2: "\<forall>x\<in>set rest. errored x \<longrightarrow> d (source x) \<noteq> None \<and> source x \<noteq> mp" by simp_all
    from Cons.IH [OF 1 2] obtain d' where c: "commentFiles u mp rest d = (None, d')"
      and w: "\<forall>x\<in>set rest. \<forall>content. errored x \<and> d (source x) = Some content \<longrightarrow>
        d' (source x) =
          Some (join [CHR 0x0A] (fst (addComments u (split CHR 0x0A content) (plan (warnings x)))))"
      and e: "(\<exists>x\<in>set rest. errored x) \<longrightarrow> d' mp = Some []"
      and f: "\<forall>p. p \<noteq> mp \<and> p \<notin> source ` {x \<in> set rest. errored x} \<longrightarrow> d' p = d p"
      by blast
    have "commentFiles u mp (r # rest) d = (None, d')"
      using False c by (simp add: commentFile_not_errored)
    moreover have "{x \<in> set (r # rest). errored x} = {x \<in> set rest. errored x}"
      using False by auto
    ultimately show ?thesis using False w e f by auto
  next
    case True
    from Cons.prems True obtain content where rd: "d (source r) = Some content"
      and rmp: "source r \<noteq> mp" by auto
    let ?new = "join [CHR 0x0A] (fst (addComments u (split CHR 0x0A content) (plan (warnings r))))"
    let ?d1 = "writeFile mp [] (writeFile (source r) ?new d)"
    have cf: "commentFile u mp r d = Inr ?d1"
      using True rd by (rule commentFile_errored)
    from Cons.prems True have 1: "distinct (map source (filter errored rest))"
      and nin: "source r \<notin> source ` set (filter errored rest)" by simp_all
    from nin have fresh: "\<forall>x\<in>set rest. errored x \<longrightarrow> source x \<noteq> source r"
      by (auto simp: image_iff)
    from Cons.prems have 2: "\<forall>x\<in>set rest. errored x \<longrightarrow> ?d1 (source x) \<noteq> None \<and> source x \<noteq> mp"
      by (auto simp: writeFile_def)
    from Cons.IH [OF 1 2] obtain d' where c: "commentFiles u mp rest ?d1 = (None, d')"
      and w: "\<forall>x\<in>set rest. \<forall>content. errored x \<and> ?d1 (source x) = Some content \<longrightarrow>
        d' (source x) =
          Some (join [CHR 0x0A] (fst (addComments u (split CHR 0x0A content) (plan (warnings x)))))"
      and e: "(\<exists>x\<in>set rest. errored x) \<longrightarrow> d' mp = Some []"
      and f: "\<forall>p. p \<noteq> mp \<and> p \<notin> source ` {x \<in> set rest. errored x} \<longrightarrow> d' p = ?d1 p"
      by blast
    have res: "commentFiles u mp (r # rest) d = (None, d')"
      using cf c by simp
    have same: "\<And>x. x \<in> set rest \<Longrightarrow> errored x \<Longrightarrow> ?d1 (source x) = d (source x)"
      using fresh Cons.prems(2) by (auto simp: writeFile_def)
    have own: "d' (source r) = Some ?new"
    proof -
      have "source r \<notin> source ` {x \<in> set rest. errored x}" using fresh by auto
      with f rmp have "d' (source r) = ?d1 (source r)" by blast
      then show ?thesis using rmp by (simp add: writeFile_def)
    qed
    have written: "\<forall>x\<in>set (r # rest). \<forall>content. errored x \<and> d (source x) = Some content \<longrightarrow>
        d' (source x) =
          Some (join [CHR 0x0A] (fst (addComments u (split CHR 0x0A content) (plan (warnings x)))))"
    proof (intro ballI allI impI)
      fix x content'
      assume x: "x \<in> set (r # rest)" and h: "errored x \<and> d (source x) = Some content'"
      show "d' (source x) =
          Some (join [CHR 0x0A] (fst (addComments u (split CHR 0x0A content') (plan (warnings x)))))"
      proof (cases "x = r")
        case True
        with h rd own show ?thesis by simp
      next
        case False
        with x have xr: "x \<in> set rest" by simp
        with h same have "?d1 (source x) = Some content'" by simp
        with w xr h show ?thesis by blast
      qed
    qed
    have emptied: "d' mp = Some []"
    proof (cases "\<exists>x\<in>set rest. errored x")
      case True
      with e show ?thesis by blast
    next
      case False
      then have "source ` {x \<in> set rest. errored x} = {}" by auto
      moreover have "commentFiles u mp rest ?d1 = (None, ?d1)"
        using False by (intro commentFiles_none_errored) blast
      with c have "d' = ?d1" by simp
      then show ?thesis by (simp add: writeFile_def)
    qed
    have frame: "\<forall>p. p \<noteq> mp \<and> p \<notin> source ` {x \<in> set (r # rest). errored x} \<longrightarrow> d' p = d p"
    proof (intro allI impI)
      fix p
      assume p: "p \<noteq> mp \<and> p \<notin> source ` {x \<in> set (r # rest). errored x}"
      with True have pr: "p \<noteq> source r" and "p \<notin> source ` {x \<in> set rest. errored x}" by auto
      with f p have "d' p = ?d1 p" by blast
      with p pr show "d' p = d p" by (simp add: writeFile_def)
    qed
    from res written emptied frame show ?thesis by blast
  qed
qed

lemma commentFiles_append:
  "commentFiles u mp (pre @ rest) d =
     (case commentFiles u mp pre d of
        (None, d1) \<Rightarrow> commentFiles u mp rest d1
      | (Some e, d1) \<Rightarrow> (Some e, d1))"
  by (induction pre arbitrary: d) (simp_all split: sum.splits)

text \<open>
  Claim C10 (the manifest is emptied in the loop over the files). The statement has four
  parts; the first is about the loop, the others about the whole pass with the manifest
  there and the engine returning results.
  \<^item> The loop: when the results before \<open>r\<close> have been passed without a failure and
    \<open>r\<close> has errors and its file can be read, the loop goes on to the results after
    \<open>r\<close> with the file of \<open>r\<close> written with its comments and the manifest written
    empty.
  \<^item> The first file with errors: when it can be read, the pass is the rest of the loop from
    the file system with that file commented and the manifest empty, and the manifest is
    empty at the end whatever the results after it are, also when the loop fails at one
    of them (the \<open>catch\<close> then fails at its renaming, for \<open>hash\<close> is gone).
  \<^item> All files with errors can be read and are different files, none of them the manifest
    or \<open>hash\<close>: the pass ends normally and prints nothing, every file with errors holds
    its text with the comments of its plan, the manifest is empty if there is a result
    with errors, and every path but these and \<open>hash\<close> is as before.
  \<^item> No result with errors: the pass ends normally, prints nothing, and leaves every file
    but \<open>hash\<close> as it was: the manifest and all source files.

  The text of a file that is written is given for a file that is UTF-8.
\<close>

theorem manifest_emptied_per_written_file:
  "(commentFiles u mp pre d = (None, dPre) \<and> errored r \<and> dPre (source r) = Some content \<and>
    wellFormedUTF8 content \<longrightarrow>
      commentFiles u mp (pre @ r # post) d =
        commentFiles u mp post
          (writeFile mp []
             (writeFile (source r)
                (join [CHR 0x0A] (fst (addComments u (split CHR 0x0A content) (plan (warnings r)))))
                dPre))) \<and>
   (disk w ''.stylelintignore'' = Some manifest \<and>
    lint cfg files (((disk w)(''.stylelintignore'' := None))(''hash'' \<mapsto> manifest)) =
      Inr (pre @ r # post) \<and>
    (\<forall>x\<in>set pre. \<not> errored x) \<and> errored r \<and> disk w (source r) = Some content \<and>
    wellFormedUTF8 content \<and> source r \<noteq> ''hash'' \<longrightarrow>
      addingCommentsWithStylelintErrors lint (Some files) ''.stylelintignore'' cfg u w =
        (case commentFiles u ''.stylelintignore'' post
                (writeFile ''.stylelintignore'' []
                   (writeFile (source r)
                      (join [CHR 0x0A]
                         (fst (addComments u (split CHR 0x0A content) (plan (warnings r)))))
                      ((disk w)(''hash'' := None)))) of
           (None, d') \<Rightarrow> (Inr (), w\<lparr>disk := d'\<rparr>)
         | (Some e, d') \<Rightarrow> (Inl (ENOENT ''hash''), w\<lparr>disk := d'\<rparr>)) \<and>
      disk (snd (addingCommentsWithStylelintErrors lint (Some files) ''.stylelintignore'' cfg u w))
        ''.stylelintignore'' = Some []) \<and>
   (disk w ''.stylelintignore'' = Some manifest \<and>
    lint cfg files (((disk w)(''.stylelintignore'' := None))(''hash'' \<mapsto> manifest)) = Inr results \<and>
    distinct (map source (filter errored results)) \<and>
    (\<forall>x\<in>set results. errored x \<longrightarrow>
       disk w (source x) \<noteq> None \<and> source x \<noteq> ''hash'' \<and> source x \<noteq> ''.stylelintignore'') \<longrightarrow>
      fst (addingCommentsWithStylelintErrors lint (Some files) ''.stylelintignore'' cfg u w) = Inr () \<and>
      console (snd (addingCommentsWithStylelintErrors lint (Some files) ''.stylelintignore'' cfg u w)) =
        console w \<and>
      (\<forall>x\<in>set results. \<forall>body. errored x \<and> disk w (source x) = Some body \<and> wellFormedUTF8 body \<longrightarrow>
         disk (snd (addingCommentsWithStylelintErrors lint (Some files) ''.stylelintignore'' cfg u w))
           (source x) =
         Some (join [CHR 0x0A] (fst (addComments u (split CHR 0x0A body) (plan (warnings x)))))) \<and>
      ((\<exists>x\<in>set results. errored x) \<longrightarrow>
         disk (snd (addingCommentsWithStylelintErrors lint (Some files) ''.stylelintignore'' cfg u w))
           ''.stylelintignore'' = Some []) \<and>
      (\<forall>p. p \<noteq> ''hash'' \<and> p \<noteq> ''.stylelintignore'' \<and>
           p \<notin> source ` {x \<in> set results. errored x} \<longrightarrow>
         disk (snd (addingCommentsWithStylelintErrors lint (Some files) ''.stylelintignore'' cfg u w)) p =
           disk w p)) \<and>
   (disk w ''.stylelintignore'' = Some manifest \<and>
    lint cfg files (((disk w)(''.stylelintignore'' := None))(''hash'' \<mapsto> manifest)) = Inr results \<and>
    (\<forall>r\<in>set results. \<not> errored r) \<longrightarrow>
      fst (addingCommentsWithStylelintErrors lint (Some files) mp cfg u w) = Inr () \<and>
      console (snd (addingCommentsWithStylelintErrors lint (Some files) mp cfg u w)) = console w \<and>
      (\<forall>p. p \<noteq> ''hash'' \<longrightarrow>
         disk (snd (addingCommentsWithStylelintErrors lint (Some files) mp cfg u w)) p = disk w p))"
  (is "?L \<and> ?A \<and> ?B \<and> ?C")
proof (intro conjI)
  show ?L
    by (simp add: commentFiles_append commentFile_errored)
next
  show ?A
  proof (intro impI)
    assume a: "disk w ''.stylelintignore'' = Some manifest \<and>
      lint cfg files (((disk w)(''.stylelintignore'' := None))(''hash'' \<mapsto> manifest)) =
        Inr (pre @ r # post) \<and>
      (\<forall>x\<in>set pre. \<not> errored x) \<and> errored r \<and> disk w (source r) = Some content \<and>
      wellFormedUTF8 content \<and> source r \<noteq> ''hash''"
    then have m: "disk w ''.stylelintignore'' = Some manifest"
      and l: "lint cfg files (((disk w)(''.stylelintignore'' := None))(''hash'' \<mapsto> manifest)) =
        Inr (pre @ r # post)"
      and pre: "\<forall>x\<in>set pre. \<not> errored x"
      and r: "errored r" "disk w (source r) = Some content" "source r \<noteq> ''hash''"
      by simp_all
    have rd: "((disk w)(''hash'' := None)) (source r) = Some content" using r by simp
    have "commentFiles u ''.stylelintignore'' (pre @ r # post) ((disk w)(''hash'' := None)) =
        commentFiles u ''.stylelintignore'' post
          (writeFile ''.stylelintignore'' []
             (writeFile (source r)
                (join [CHR 0x0A] (fst (addComments u (split CHR 0x0A content) (plan (warnings r)))))
                ((disk w)(''hash'' := None))))"
      using pre r(1) rd
        commentFile_errored [of r "(disk w)(''hash'' := None)" content u "''.stylelintignore''"]
      by (simp add: commentFiles_skip_clean)
    then have 1: "addingCommentsWithStylelintErrors lint (Some files) ''.stylelintignore'' cfg u w =
        (case commentFiles u ''.stylelintignore'' post
                (writeFile ''.stylelintignore'' []
                   (writeFile (source r)
                      (join [CHR 0x0A]
                         (fst (addComments u (split CHR 0x0A content) (plan (warnings r)))))
                      ((disk w)(''hash'' := None)))) of
           (None, d') \<Rightarrow> (Inr (), w\<lparr>disk := d'\<rparr>)
         | (Some e, d') \<Rightarrow> (Inl (ENOENT ''hash''), w\<lparr>disk := d'\<rparr>))"
      by (simp add: addingComments_disk [of w manifest lint cfg files "pre @ r # post" u, OF m l])
    have 2: "disk (snd (addingCommentsWithStylelintErrors lint (Some files) ''.stylelintignore'' cfg u w))
        ''.stylelintignore'' = Some []"
      using m l pre r by (rule addingComments_first_errored)
    from 1 2 show "addingCommentsWithStylelintErrors lint (Some files) ''.stylelintignore'' cfg u w =
        (case commentFiles u ''.stylelintignore'' post
                (writeFile ''.stylelintignore'' []
                   (writeFile (source r)
                      (join [CHR 0x0A]
                         (fst (addComments u (split CHR 0x0A content) (plan (warnings r)))))
                      ((disk w)(''hash'' := None)))) of
           (None, d') \<Rightarrow> (Inr (), w\<lparr>disk := d'\<rparr>)
         | (Some e, d') \<Rightarrow> (Inl (ENOENT ''hash''), w\<lparr>disk := d'\<rparr>)) \<and>
      disk (snd (addingCommentsWithStylelintErrors lint (Some files) ''.stylelintignore'' cfg u w))
        ''.stylelintignore'' = Some []"
      by (rule conjI)
  qed
next
  show ?B
  proof (intro impI)
    assume a: "disk w ''.stylelintignore'' = Some manifest \<and>
      lint cfg files (((disk w)(''.stylelintignore'' := None))(''hash'' \<mapsto> manifest)) = Inr results \<and>
      distinct (map source (filter errored results)) \<and>
      (\<forall>x\<in>set results. errored x \<longrightarrow>
         disk w (source x) \<noteq> None \<and> source x \<noteq> ''hash'' \<and> source x \<noteq> ''.stylelintignore'')"
    then have m: "disk w ''.stylelintignore'' = Some manifest"
      and l: "lint cfg files (((disk w)(''.stylelintignore'' := None))(''hash'' \<mapsto> manifest)) =
        Inr results"
      and dist: "distinct (map source (filter errored results))"
      and rs: "\<forall>x\<in>set results. errored x \<longrightarrow>
         disk w (source x) \<noteq> None \<and> source x \<noteq> ''hash'' \<and> source x \<noteq> ''.stylelintignore''"
      by simp_all
    let ?d = "(disk w)(''hash'' := None)"
    let ?mp = "''.stylelintignore''"
    let ?pass = "addingCommentsWithStylelintErrors lint (Some files) ?mp cfg u w"
    have h: "\<forall>x\<in>set results. errored x \<longrightarrow> ?d (source x) \<noteq> None \<and> source x \<noteq> ?mp"
      using rs by simp
    from commentFiles_written [OF dist h, of u] obtain d' where
      c: "commentFiles u ?mp results ?d = (None, d')"
      and wr: "\<forall>x\<in>set results. \<forall>content. errored x \<and> ?d (source x) = Some content \<longrightarrow>
        d' (source x) =
          Some (join [CHR 0x0A] (fst (addComments u (split CHR 0x0A content) (plan (warnings x)))))"
      and e: "(\<exists>x\<in>set results. errored x) \<longrightarrow> d' ?mp = Some []"
      and f: "\<forall>p. p \<noteq> ?mp \<and> p \<notin> source ` {x \<in> set results. errored x} \<longrightarrow> d' p = ?d p"
      by blast
    have p: "?pass = (Inr (), w\<lparr>disk := d'\<rparr>)"
      by (simp add: addingComments_disk [of w manifest lint cfg files results u, OF m l] c)
    have written: "\<forall>x\<in>set results. \<forall>body. errored x \<and> disk w (source x) = Some body \<and> wellFormedUTF8 body \<longrightarrow>
         disk (snd ?pass) (source x) =
         Some (join [CHR 0x0A] (fst (addComments u (split CHR 0x0A body) (plan (warnings x)))))"
    proof (intro ballI allI impI)
      fix x body
      assume x: "x \<in> set results" and t: "errored x \<and> disk w (source x) = Some body \<and> wellFormedUTF8 body"
      with rs have "source x \<noteq> ''hash''" by blast
      with t have "errored x \<and> ?d (source x) = Some body" by simp
      with wr x have "d' (source x) =
          Some (join [CHR 0x0A] (fst (addComments u (split CHR 0x0A body) (plan (warnings x)))))"
        by blast
      then show "disk (snd ?pass) (source x) =
         Some (join [CHR 0x0A] (fst (addComments u (split CHR 0x0A body) (plan (warnings x)))))"
        by (simp add: p)
    qed
    have frame: "\<forall>p. p \<noteq> ''hash'' \<and> p \<noteq> ?mp \<and> p \<notin> source ` {x \<in> set results. errored x} \<longrightarrow>
         disk (snd ?pass) p = disk w p"
    proof (intro allI impI)
      fix q
      assume q: "q \<noteq> ''hash'' \<and> q \<noteq> ?mp \<and> q \<notin> source ` {x \<in> set results. errored x}"
      with f have "d' q = ?d q" by blast
      with q show "disk (snd ?pass) q = disk w q" by (simp add: p)
    qed
    have emptied: "(\<exists>x\<in>set results. errored x) \<longrightarrow> disk (snd ?pass) ?mp = Some []"
      using e by (simp add: p)
    have "fst ?pass = Inr ()" "console (snd ?pass) = console w" by (simp_all add: p)
    with written emptied frame
    show "fst ?pass = Inr () \<and> console (snd ?pass) = console w \<and>
      (\<forall>x\<in>set results. \<forall>body. errored x \<and> disk w (source x) = Some body \<and> wellFormedUTF8 body \<longrightarrow>
         disk (snd ?pass) (source x) =
         Some (join [CHR 0x0A] (fst (addComments u (split CHR 0x0A body) (plan (warnings x)))))) \<and>
      ((\<exists>x\<in>set results. errored x) \<longrightarrow> disk (snd ?pass) ?mp = Some []) \<and>
      (\<forall>p. p \<noteq> ''hash'' \<and> p \<noteq> ?mp \<and> p \<notin> source ` {x \<in> set results. errored x} \<longrightarrow>
         disk (snd ?pass) p = disk w p)"
      by blast
  qed
next
  show ?C
  proof (intro impI conjI allI)
    assume a: "disk w ''.stylelintignore'' = Some manifest \<and>
      lint cfg files (((disk w)(''.stylelintignore'' := None))(''hash'' \<mapsto> manifest)) = Inr results \<and>
      (\<forall>r\<in>set results. \<not> errored r)"
    then have e: "addingCommentsWithStylelintErrors lint (Some files) mp cfg u w =
             (Inr (), w\<lparr>disk := (disk w)(''hash'' := None)\<rparr>)"
      using addingComments_none_errored [of w manifest lint cfg files results mp u] by blast
    show "fst (addingCommentsWithStylelintErrors lint (Some files) mp cfg u w) = Inr ()"
      by (simp add: e)
    show "console (snd (addingCommentsWithStylelintErrors lint (Some files) mp cfg u w)) = console w"
      by (simp add: e)
    fix p :: path
    assume "p \<noteq> ''hash''"
    then show "disk (snd (addingCommentsWithStylelintErrors lint (Some files) mp cfg u w)) p = disk w p"
      by (simp add: e)
  qed
qed

text \<open>
  The project of the examples with the manifest \<open>b.css\<close>. With the engine that reports
  one error on line 1 of \<open>b.css\<close> the pass ends normally, \<open>b.css\<close> has the two
  comments, the manifest is empty and \<open>a.css\<close> is as before. With the same engine asked
  for \<open>b.css\<close> and a file \<open>gone.css\<close> that is not there, the pass fails after
  \<open>b.css\<close>, and the manifest is empty and \<open>b.css\<close> commented all the same. With the
  engine that finds \<open>b.css\<close> clean, the manifest and the file are as before. And the
  loop over a result without errors and one with an error.
\<close>

theorem manifest_emptied_per_written_file_witness:
  "fst (addingCommentsWithStylelintErrors oneErrorEngine (Some [''b.css'']) ''.stylelintignore''
          None True \<lparr>disk = exampleDisk ''b.css'', console = []\<rparr>) = Inr () \<and>
   disk (snd (addingCommentsWithStylelintErrors oneErrorEngine (Some [''b.css'']) ''.stylelintignore''
                None True \<lparr>disk = exampleDisk ''b.css'', console = []\<rparr>)) ''b.css'' =
     Some (''/* stylelint-disable r */'' @ [CHR 0x0A] @ ''.b { color: red }'' @ [CHR 0x0A] @
           ''/* stylelint-enable r */'') \<and>
   disk (snd (addingCommentsWithStylelintErrors oneErrorEngine (Some [''b.css'']) ''.stylelintignore''
                None True \<lparr>disk = exampleDisk ''b.css'', console = []\<rparr>)) ''.stylelintignore'' =
     Some [] \<and>
   disk (snd (addingCommentsWithStylelintErrors oneErrorEngine (Some [''b.css'']) ''.stylelintignore''
                None True \<lparr>disk = exampleDisk ''b.css'', console = []\<rparr>)) ''a.css'' =
     Some (''/* stylelint-disable */'' @ [CHR 0x0A] @ ''.a { color: red }'') \<and>
   fst (addingCommentsWithStylelintErrors oneErrorEngine (Some [''b.css'', ''gone.css''])
          ''.stylelintignore'' None True \<lparr>disk = exampleDisk ''b.css'', console = []\<rparr>) =
     Inl (ENOENT ''hash'') \<and>
   disk (snd (addingCommentsWithStylelintErrors oneErrorEngine (Some [''b.css'', ''gone.css''])
                ''.stylelintignore'' None True \<lparr>disk = exampleDisk ''b.css'', console = []\<rparr>))
     ''.stylelintignore'' = Some [] \<and>
   disk (snd (addingCommentsWithStylelintErrors oneErrorEngine (Some [''b.css'', ''gone.css''])
                ''.stylelintignore'' None True \<lparr>disk = exampleDisk ''b.css'', console = []\<rparr>))
     ''b.css'' =
     Some (''/* stylelint-disable r */'' @ [CHR 0x0A] @ ''.b { color: red }'' @ [CHR 0x0A] @
           ''/* stylelint-enable r */'') \<and>
   disk (snd (addingCommentsWithStylelintErrors cleanEngine (Some [''b.css'']) ''.stylelintignore''
                None True \<lparr>disk = exampleDisk ''b.css'', console = []\<rparr>)) ''.stylelintignore'' =
     Some ''b.css'' \<and>
   disk (snd (addingCommentsWithStylelintErrors cleanEngine (Some [''b.css'']) ''.stylelintignore''
                None True \<lparr>disk = exampleDisk ''b.css'', console = []\<rparr>)) ''b.css'' =
     Some ''.b { color: red }'' \<and>
   commentFiles True ''.stylelintignore''
     [\<lparr>source = ''a.css'', errored = False, warnings = []\<rparr>,
      \<lparr>source = ''b.css'', errored = True,
       warnings = [\<lparr>severity = ''error'', line = 1, endLine = 1, rule = ''r''\<rparr>]\<rparr>]
     (exampleDisk ''b.css'') =
     (None,
      writeFile ''.stylelintignore'' []
        (writeFile ''b.css''
           (''/* stylelint-disable r */'' @ [CHR 0x0A] @ ''.b { color: red }'' @ [CHR 0x0A] @
            ''/* stylelint-enable r */'')
           (exampleDisk ''b.css'')))"
proof -
  let ?w = "\<lparr>disk = exampleDisk ''b.css'', console = []\<rparr>"
  let ?mp = "''.stylelintignore''"
  let ?b = "\<lparr>source = ''b.css'', errored = True,
      warnings = [\<lparr>severity = ''error'', line = 1, endLine = 1, rule = ''r''\<rparr>]\<rparr>"
  let ?gone = "\<lparr>source = ''gone.css'', errored = True,
      warnings = [\<lparr>severity = ''error'', line = 1, endLine = 1, rule = ''r''\<rparr>]\<rparr>"
  let ?a = "\<lparr>source = ''a.css'', errored = False, warnings = []\<rparr>"
  let ?clean = "\<lparr>source = ''b.css'', errored = False, warnings = []\<rparr>"
  let ?commented = "''/* stylelint-disable r */'' @ [CHR 0x0A] @ ''.b { color: red }'' @ [CHR 0x0A] @
           ''/* stylelint-enable r */''"
  let ?one = "addingCommentsWithStylelintErrors oneErrorEngine (Some [''b.css'']) ?mp None True ?w"
  let ?two = "addingCommentsWithStylelintErrors oneErrorEngine (Some [''b.css'', ''gone.css''])
      ?mp None True ?w"
  let ?none = "addingCommentsWithStylelintErrors cleanEngine (Some [''b.css'']) ?mp None True ?w"
  have new: "join [CHR 0x0A] (fst (addComments True (split CHR 0x0A ''.b { color: red }'')
                      (plan (warnings ?b)))) = ?commented"
    by code_simp
  have m: "disk ?w ?mp = Some ''b.css''"
    by (simp add: exampleDisk_def)
  have bd: "disk ?w ''b.css'' = Some ''.b { color: red }''"
    by (simp add: exampleDisk_def)
  have wf: "wellFormedUTF8 ''.b { color: red }''"
    by code_simp
  have ad: "disk ?w ''a.css'' = Some (''/* stylelint-disable */'' @ [CHR 0x0A] @ ''.a { color: red }'')"
    by (simp add: exampleDisk_def)

  \<comment> \<open>every file with errors can be read\<close>
  note all = manifest_emptied_per_written_file
    [where w = ?w and manifest = "''b.css''" and lint = oneErrorEngine and cfg = None
       and files = "[''b.css'']" and results = "[?b]" and u = True,
     THEN conjunct2, THEN conjunct2, THEN conjunct1]
  have l1: "oneErrorEngine None [''b.css''] (((disk ?w)(?mp := None))(''hash'' \<mapsto> ''b.css'')) =
      Inr [?b]"
    by (simp add: oneErrorEngine_def)
  have h1: "disk ?w ?mp = Some ''b.css'' \<and>
      oneErrorEngine None [''b.css''] (((disk ?w)(?mp := None))(''hash'' \<mapsto> ''b.css'')) = Inr [?b] \<and>
      distinct (map source (filter errored [?b])) \<and>
      (\<forall>x\<in>set [?b]. errored x \<longrightarrow>
         disk ?w (source x) \<noteq> None \<and> source x \<noteq> ''hash'' \<and> source x \<noteq> ?mp)"
    using m l1 bd by simp
  from all h1 have one: "fst ?one = Inr () \<and> console (snd ?one) = console ?w \<and>
      (\<forall>x\<in>set [?b]. \<forall>body. errored x \<and> disk ?w (source x) = Some body \<and> wellFormedUTF8 body \<longrightarrow>
         disk (snd ?one) (source x) =
         Some (join [CHR 0x0A] (fst (addComments True (split CHR 0x0A body) (plan (warnings x)))))) \<and>
      ((\<exists>x\<in>set [?b]. errored x) \<longrightarrow> disk (snd ?one) ?mp = Some []) \<and>
      (\<forall>p. p \<noteq> ''hash'' \<and> p \<noteq> ?mp \<and> p \<notin> source ` {x \<in> set [?b]. errored x} \<longrightarrow>
         disk (snd ?one) p = disk ?w p)"
    by (rule mp)
  from one have c1: "fst ?one = Inr ()" by (rule conjunct1)
  from one have "\<forall>body. errored ?b \<and> disk ?w (source ?b) = Some body \<and> wellFormedUTF8 body \<longrightarrow>
         disk (snd ?one) (source ?b) =
         Some (join [CHR 0x0A] (fst (addComments True (split CHR 0x0A body) (plan (warnings ?b)))))"
    by simp
  then have "disk (snd ?one) (source ?b) =
         Some (join [CHR 0x0A] (fst (addComments True (split CHR 0x0A ''.b { color: red }'')
           (plan (warnings ?b)))))"
    using bd wf by simp
  then have c2: "disk (snd ?one) ''b.css'' = Some ?commented"
    by (simp only: new) simp
  from one have c3: "disk (snd ?one) ?mp = Some []" by simp
  from one have "\<forall>p. p \<noteq> ''hash'' \<and> p \<noteq> ?mp \<and> p \<notin> source ` {x \<in> set [?b]. errored x} \<longrightarrow>
         disk (snd ?one) p = disk ?w p"
    by blast
  then have "''a.css'' \<noteq> ''hash'' \<and> ''a.css'' \<noteq> ?mp \<and>
      ''a.css'' \<notin> source ` {x \<in> set [?b]. errored x} \<longrightarrow> disk (snd ?one) ''a.css'' = disk ?w ''a.css''"
    by (rule spec)
  moreover have "''a.css'' \<notin> source ` {x \<in> set [?b]. errored x}"
    by auto
  ultimately have "disk (snd ?one) ''a.css'' = disk ?w ''a.css''"
    by simp
  then have c4: "disk (snd ?one) ''a.css'' =
      Some (''/* stylelint-disable */'' @ [CHR 0x0A] @ ''.a { color: red }'')"
    by (simp only: ad)

  \<comment> \<open>the second file with errors cannot be read\<close>
  note first = manifest_emptied_per_written_file
    [where w = ?w and manifest = "''b.css''" and lint = oneErrorEngine and cfg = None
       and files = "[''b.css'', ''gone.css'']" and pre = "[]" and r = ?b and post = "[?gone]"
       and content = "''.b { color: red }''" and u = True,
     THEN conjunct2, THEN conjunct1]
  have l2: "oneErrorEngine None [''b.css'', ''gone.css'']
      (((disk ?w)(?mp := None))(''hash'' \<mapsto> ''b.css'')) = Inr ([] @ ?b # [?gone])"
    by (simp add: oneErrorEngine_def)
  have h2: "disk ?w ?mp = Some ''b.css'' \<and>
      oneErrorEngine None [''b.css'', ''gone.css'']
        (((disk ?w)(?mp := None))(''hash'' \<mapsto> ''b.css'')) = Inr ([] @ ?b # [?gone]) \<and>
      (\<forall>x\<in>set []. \<not> errored x) \<and> errored ?b \<and> disk ?w (source ?b) = Some ''.b { color: red }'' \<and>
      wellFormedUTF8 ''.b { color: red }'' \<and> source ?b \<noteq> ''hash''"
    using m l2 bd wf by simp
  let ?d3 = "writeFile ?mp []
                   (writeFile (source ?b)
                      (join [CHR 0x0A]
                         (fst (addComments True (split CHR 0x0A ''.b { color: red }'')
                            (plan (warnings ?b)))))
                      ((disk ?w)(''hash'' := None)))"
  from first h2 have two: "?two =
        (case commentFiles True ?mp [?gone] ?d3 of
           (None, d') \<Rightarrow> (Inr (), ?w\<lparr>disk := d'\<rparr>)
         | (Some e, d') \<Rightarrow> (Inl (ENOENT ''hash''), ?w\<lparr>disk := d'\<rparr>)) \<and>
      disk (snd ?two) ?mp = Some []"
    by (rule mp)
  have gone: "commentFiles True ?mp [?gone] ?d3 = (Some (ENOENT ''gone.css''), ?d3)"
    by (simp add: commentFile_def readFile_def writeFile_def exampleDisk_def)
  from two have c6: "disk (snd ?two) ?mp = Some []" by (rule conjunct2)
  from two have two': "?two = (Inl (ENOENT ''hash''), ?w\<lparr>disk := ?d3\<rparr>)"
    by (simp only: gone) simp
  have c5: "fst ?two = Inl (ENOENT ''hash'')"
    by (simp only: two') simp
  have "disk (snd ?two) ''b.css'' =
      Some (join [CHR 0x0A] (fst (addComments True (split CHR 0x0A ''.b { color: red }'')
                            (plan (warnings ?b)))))"
    by (simp only: two') (simp add: writeFile_def)
  then have c7: "disk (snd ?two) ''b.css'' = Some ?commented"
    by (simp only: new)

  \<comment> \<open>no file has errors\<close>
  note clean = manifest_emptied_per_written_file
    [where w = ?w and manifest = "''b.css''" and lint = cleanEngine and cfg = None
       and files = "[''b.css'']" and results = "[?clean]" and u = True and mp = ?mp,
     THEN conjunct2, THEN conjunct2, THEN conjunct2]
  have h3: "disk ?w ?mp = Some ''b.css'' \<and>
    cleanEngine None [''b.css''] (((disk ?w)(?mp := None))(''hash'' \<mapsto> ''b.css'')) = Inr [?clean] \<and>
    (\<forall>r\<in>set [?clean]. \<not> errored r)"
    by (simp add: exampleDisk_def cleanEngine_def)
  from clean h3 have unchanged: "\<forall>p. p \<noteq> ''hash'' \<longrightarrow> disk (snd ?none) p = disk ?w p"
    by blast
  from unchanged [rule_format, of ?mp] have c8: "disk (snd ?none) ?mp = Some ''b.css''"
    by (simp add: exampleDisk_def)
  from unchanged [rule_format, of "''b.css''"] have c9: "disk (snd ?none) ''b.css'' = Some ''.b { color: red }''"
    by (simp add: exampleDisk_def)

  \<comment> \<open>the loop after a file without errors\<close>
  note loop = manifest_emptied_per_written_file
    [where u = True and mp = ?mp and pre = "[?a]" and d = "exampleDisk ''b.css''"
       and dPre = "exampleDisk ''b.css''" and r = ?b and content = "''.b { color: red }''"
       and post = "[]",
     THEN conjunct1]
  have h4: "commentFiles True ?mp [?a] (exampleDisk ''b.css'') = (None, exampleDisk ''b.css'') \<and>
      errored ?b \<and> exampleDisk ''b.css'' (source ?b) = Some ''.b { color: red }'' \<and>
      wellFormedUTF8 ''.b { color: red }''"
    using bd wf by (simp add: commentFile_def)
  from loop h4 have "commentFiles True ?mp ([?a] @ ?b # []) (exampleDisk ''b.css'') =
        commentFiles True ?mp []
          (writeFile ?mp []
             (writeFile (source ?b)
                (join [CHR 0x0A] (fst (addComments True (split CHR 0x0A ''.b { color: red }'')
                   (plan (warnings ?b)))))
                (exampleDisk ''b.css'')))"
    by (rule mp)
  then have c10: "commentFiles True ?mp [?a, ?b] (exampleDisk ''b.css'') =
     (None, writeFile ?mp [] (writeFile ''b.css'' ?commented (exampleDisk ''b.css'')))"
    by (simp only: new) simp
  from c1 c2 c3 c4 c5 c6 c7 c8 c9 c10 show ?thesis by blast
qed

section \<open>The manifest read and written again\<close>

lemma not_String_includes_Cons:
  "\<not> String_includes (c # cs) sub \<Longrightarrow>
     stripPrefix sub (c # cs) = None \<and> \<not> String_includes cs sub"
  by (auto split: option.splits)

lemma readline_no_line_end:
  assumes "c \<noteq> CHR 0x0A" and "c \<noteq> CHR 0x0D"
    and "stripPrefix [CHR 0xE2, CHR 0x80, CHR 0xA8] (c # cs) = None"
    and "stripPrefix [CHR 0xE2, CHR 0x80, CHR 0xA9] (c # cs) = None"
  shows "readline cur (c # cs) = readline (cur @ [c]) cs"
proof (cases "c = CHR 0xE2")
  case False
  with assms show ?thesis by simp
next
  case True
  show ?thesis
  proof (cases cs)
    case Nil
    with True show ?thesis by simp
  next
    case (Cons d ds)
    show ?thesis
    proof (cases ds)
      case Nil
      with True Cons show ?thesis by simp
    next
      case (Cons e es)
      with True \<open>cs = d # ds\<close> assms(3,4) show ?thesis
        by (auto split: if_splits)
    qed
  qed
qed

lemma readline_unlines:
  "CHR 0x0D \<notin> set s \<Longrightarrow>
   \<not> String_includes s [CHR 0xE2, CHR 0x80, CHR 0xA8] \<Longrightarrow>
   \<not> String_includes s [CHR 0xE2, CHR 0x80, CHR 0xA9] \<Longrightarrow>
     concat (map (\<lambda>l. l @ [CHR 0x0A]) (readline cur s)) =
       (if cur @ s = [] then []
        else if s \<noteq> [] \<and> last s = CHR 0x0A then cur @ s
        else cur @ s @ [CHR 0x0A])"
proof (induction s arbitrary: cur)
  case Nil
  then show ?case by simp
next
  case (Cons c cs)
  from Cons.prems have cs: "CHR 0x0D \<notin> set cs" and c: "c \<noteq> CHR 0x0D" by auto
  from not_String_includes_Cons [OF Cons.prems(2)]
  have l1: "stripPrefix [CHR 0xE2, CHR 0x80, CHR 0xA8] (c # cs) = None"
    and l2: "\<not> String_includes cs [CHR 0xE2, CHR 0x80, CHR 0xA8]" by simp_all
  from not_String_includes_Cons [OF Cons.prems(3)]
  have p1: "stripPrefix [CHR 0xE2, CHR 0x80, CHR 0xA9] (c # cs) = None"
    and p2: "\<not> String_includes cs [CHR 0xE2, CHR 0x80, CHR 0xA9]" by simp_all
  show ?case
  proof (cases "c = CHR 0x0A")
    case True
    with Cons.IH [OF cs l2 p2, of "[]"] show ?thesis by auto
  next
    case False
    have "readline cur (c # cs) = readline (cur @ [c]) cs"
      using False c l1 p1 by (rule readline_no_line_end)
    with Cons.IH [OF cs l2 p2, of "cur @ [c]"] show ?thesis by auto
  qed
qed

lemma readline_round_trip:
  "CHR 0x0D \<notin> set manifest \<Longrightarrow>
   \<not> String_includes manifest [CHR 0xE2, CHR 0x80, CHR 0xA8] \<Longrightarrow>
   \<not> String_includes manifest [CHR 0xE2, CHR 0x80, CHR 0xA9] \<Longrightarrow>
     concat (map (\<lambda>l. l @ [CHR 0x0A]) (readline [] manifest)) =
       (if manifest = [] \<or> last manifest = CHR 0x0A then manifest else manifest @ [CHR 0x0A])"
  by (simp add: readline_unlines)

lemma Map_set_fresh: "k \<notin> fst ` set m \<Longrightarrow> Map_set k v m = m @ [(k, v)]"
  by (induction m) auto

lemma Map_set_same: "map_of m k = Some v \<Longrightarrow> Map_set k v m = m"
  by (induction m) (auto split: if_splits)

lemma set_foldl_Set_add: "set (foldl (\<lambda>s x. Set_add x s) acc xs) = set acc \<union> set xs"
  by (induction xs arbitrary: acc) (auto simp: set_Set_add)

lemma set_new_Set: "set (new_Set xs) = set xs"
  by (simp add: new_Set_def set_foldl_Set_add)

lemma new_Set_nonempty: "xs \<noteq> [] \<Longrightarrow> new_Set xs \<noteq> []"
  using set_new_Set [of xs] by (metis set_empty)

lemma reader_entries:
  assumes "distinct lns" and "set lns \<inter> fst ` set acc = {}"
    and "\<forall>ln\<in>set lns. \<not> isSkippedLine ln \<and> glob_sync (patternOf ln) \<noteq> []"
  shows "foldl (addIgnoreEntry glob_sync) acc lns =
           acc @ map (\<lambda>ln. (ln, new_Set (glob_sync (patternOf ln)))) lns"
  using assms
proof (induction lns arbitrary: acc)
  case Nil
  then show ?case by simp
next
  case (Cons ln rest)
  from Cons.prems have fresh: "ln \<notin> fst ` set acc" by auto
  have step: "addIgnoreEntry glob_sync acc ln = acc @ [(ln, new_Set (glob_sync (patternOf ln)))]"
    using Cons.prems(3) fresh by (simp add: addIgnoreEntry_def Map_set_fresh)
  have "foldl (addIgnoreEntry glob_sync) (acc @ [(ln, new_Set (glob_sync (patternOf ln)))]) rest =
      (acc @ [(ln, new_Set (glob_sync (patternOf ln)))]) @
        map (\<lambda>ln. (ln, new_Set (glob_sync (patternOf ln)))) rest"
    using Cons.prems by (intro Cons.IH) auto
  with step show ?case by simp
qed

lemma filterFiles_no_comment:
  "\<forall>f\<in>set files. \<not> hasDisableComment d f \<Longrightarrow> snd (filterFiles d files files) = files"
  by (simp add: filterFiles_result)

lemma filteredEntries_no_comment:
  "\<forall>(ln, files)\<in>set es. files \<noteq> [] \<and> (\<forall>f\<in>set files. \<not> hasDisableComment d f) \<Longrightarrow>
     snd (filteredEntries d es) = es"
proof (induction es)
  case Nil
  then show ?case by simp
next
  case (Cons entry rest)
  obtain ln files where entry: "entry = (ln, files)" by (cases entry)
  from Cons.prems entry have ne: "files \<noteq> []" and nc: "\<forall>f\<in>set files. \<not> hasDisableComment d f"
    by auto
  from Cons.prems have ih: "snd (filteredEntries d rest) = rest" by (intro Cons.IH) auto
  obtain raised files' where ff: "filterFiles d files files = (raised, files')"
    by (cases "filterFiles d files files")
  with filterFiles_no_comment [OF nc] have f': "files' = files" by simp
  from entry ff f' ne ih show ?case
    by (cases raised) (auto split: prod.splits)
qed

lemma filterEntries_no_comment:
  assumes "distinct (map fst c)"
    and "\<forall>(ln, files)\<in>set c. files \<noteq> [] \<and> (\<forall>f\<in>set files. \<not> hasDisableComment d f)"
  shows "snd (filterEntries d c c) = c"
  using filterEntries_filteredEntries [of "[]" c d] assms filteredEntries_no_comment [of c d]
  by simp

lemma filterEntriesWithoutErrors_collection:
  assumes "\<forall>(ln, files)\<in>set es. files \<noteq> [] \<and> map_of c ln = Some files"
  shows "fst (snd (filterEntriesWithoutErrors lint cfg es c d)) = c"
  using assms
proof (induction es arbitrary: d)
  case Nil
  then show ?case by simp
next
  case (Cons entry rest)
  obtain ln files where entry: "entry = (ln, files)" by (cases entry)
  from Cons.prems entry have ne: "files \<noteq> []" and mo: "map_of c ln = Some files" by auto
  have ih: "\<And>d. fst (snd (filterEntriesWithoutErrors lint cfg rest c d)) = c"
    using Cons.prems by (intro Cons.IH) auto
  show ?case
    using entry ne ih
    by (simp add: deleteFilesWithoutErrors_same Map_set_same [OF mo] Let_def
        split: sum.splits)
qed

lemma filterFilesWithoutErrors_same_collection:
  assumes m: "disk w ''.stylelintignore'' \<noteq> None"
    and d: "distinct (map fst c)"
    and ne: "\<forall>(ln, files)\<in>set c. files \<noteq> []"
  shows "fst (filterFilesWithoutErrors lint (Some c) cfg w) = Inr () \<and>
         fst (snd (filterFilesWithoutErrors lint (Some c) cfg w)) = Some c"
proof -
  obtain raised c' d' where f: "filterEntriesWithoutErrors lint cfg c c (disk w) = (raised, c', d')"
    by (cases "filterEntriesWithoutErrors lint cfg c c (disk w)")
  have "\<forall>(ln, files)\<in>set c. files \<noteq> [] \<and> map_of c ln = Some files"
    using d ne by auto
  from filterEntriesWithoutErrors_collection [OF this, of lint cfg "disk w"] f
  have c': "c' = c" by simp
  from filterEntriesWithoutErrors_manifest [OF m f]
  have h: "raised \<noteq> None \<longrightarrow> d' ''hash'' \<noteq> None" by simp
  show ?thesis
  proof (cases raised)
    case None
    with f c' show ?thesis by (simp add: filterFilesWithoutErrors_def)
  next
    case (Some e)
    with h obtain content where "d' ''hash'' = Some content" by blast
    with Some f c' show ?thesis
      by (simp add: filterFilesWithoutErrors_def rename_def)
  qed
qed

lemma written_content:
  "\<forall>(ln, files)\<in>set c. files \<noteq> [] \<Longrightarrow>
     foldl (\<lambda>content (ln, files). if length files \<noteq> 0 then content @ ln @ [CHR 0x0A] else content)
       acc c = acc @ concat (map (\<lambda>(ln, files). ln @ [CHR 0x0A]) c)"
  by (induction c arbitrary: acc) auto

lemma path_join_dot: "path_join ''.'' name = name"
  by (simp add: path_join_def)

lemma determinateSizeAndLengthFile_there:
  "disk w filePath = Some content \<Longrightarrow>
     determinateSizeAndLengthFile filePath w =
       (Some (length content, length (split CHR 0x0A content)), w)"
  by (simp add: determinateSizeAndLengthFile_def isFileExists_def readFile_def)

lemma compress_unchanged_collection:
  assumes m: "disk w ''.stylelintignore'' = Some manifest"
    and cf: "disk w ''.stylelintrc.json'' = Some config"
    and js: "JSON_parse config = Some cfg"
    and dl: "distinct (readline [] manifest)"
    and ln: "\<forall>ln\<in>set (readline [] manifest).
        \<not> isSkippedLine ln \<and> glob_sync (patternOf ln) \<noteq> [] \<and>
        (\<forall>f\<in>set (glob_sync (patternOf ln)). \<not> hasDisableComment (disk w) f)"
  shows "fst (compressStylelintIgnore JSON_parse glob_sync lint ''.'' w) = Inr () \<and>
         disk (snd (compressStylelintIgnore JSON_parse glob_sync lint ''.'' w)) ''.stylelintignore'' =
           Some (concat (map (\<lambda>l. l @ [CHR 0x0A]) (readline [] manifest)))"
proof -
  let ?mp = "''.stylelintignore''"
  let ?lines = "readline [] manifest"
  let ?coll = "map (\<lambda>ln. (ln, new_Set (glob_sync (patternOf ln)))) ?lines"
  let ?w1 = "log Log_start_compress w"
  let ?w3 = "log (Log_size_and_lines (length manifest) (length (split CHR 0x0A manifest))) ?w1"
  have d3: "disk ?w3 = disk w" by (simp add: log_def)
  have s1: "determinateSizeAndLengthFile ?mp ?w1 =
      (Some (length manifest, length (split CHR 0x0A manifest)), ?w1)"
    using m by (intro determinateSizeAndLengthFile_there) (simp add: log_def)
  have s2: "getStylelintConfigContent_compress JSON_parse ''.stylelintrc.json'' ?w3 = (Inr cfg, ?w3)"
    using cf js by (simp add: getStylelintConfigContent_compress_def isFileExists_def readFile_def d3)
  have "foldl (addIgnoreEntry glob_sync) [] ?lines = [] @ ?coll"
    using dl ln by (intro reader_entries) auto
  then have s3: "getStylelintIgnoreContent_compress glob_sync ?mp ?w3 = (Some ?coll, ?w3)"
    using m by (simp add: getStylelintIgnoreContent_compress_def isFileExists_def readFile_def d3)
  have keys: "distinct (map fst ?coll)"
    using dl by (simp add: comp_def)
  have nonempty: "\<forall>(l, files)\<in>set ?coll. files \<noteq> []"
    using ln by (auto simp: new_Set_nonempty)
  have nocomment: "\<forall>(l, files)\<in>set ?coll. files \<noteq> [] \<and> (\<forall>f\<in>set files. \<not> hasDisableComment (disk ?w3) f)"
    using ln by (auto simp: new_Set_nonempty set_new_Set d3)
  obtain c5 w5 where s4': "filterFilesWithDisableComment_compress (Some ?coll) ?w3 = (c5, w5)"
    by (cases "filterFilesWithDisableComment_compress (Some ?coll) ?w3")
  have "fst (filterFilesWithDisableComment_compress (Some ?coll) ?w3) = Some ?coll"
    using filterEntries_no_comment [OF keys nocomment]
    by (simp add: fst_filterFilesWithDisableComment_compress)
  with s4' have s4: "filterFilesWithDisableComment_compress (Some ?coll) ?w3 = (Some ?coll, w5)"
    by simp
  have "disk (snd (filterFilesWithDisableComment_compress (Some ?coll) ?w3)) = disk ?w3"
    by (rule disk_filterFilesWithDisableComment_compress)
  with s4 have d5: "disk w5 = disk w" by (simp add: d3)
  have m5: "disk w5 ?mp \<noteq> None" using m d5 by simp
  obtain r7 c7 w7 where s5': "filterFilesWithoutErrors lint (Some ?coll) (Some cfg) w5 = (r7, c7, w7)"
    by (cases "filterFilesWithoutErrors lint (Some ?coll) (Some cfg) w5") auto
  from filterFilesWithoutErrors_same_collection [OF m5 keys nonempty, of lint "Some cfg"] s5'
  have s5: "filterFilesWithoutErrors lint (Some ?coll) (Some cfg) w5 = (Inr (), Some ?coll, w7)"
    by simp
  let ?content = "concat (map (\<lambda>l. l @ [CHR 0x0A]) ?lines)"
  have "foldl (\<lambda>content (ln, files). if length files \<noteq> 0 then content @ ln @ [CHR 0x0A] else content)
       [] ?coll = [] @ concat (map (\<lambda>(ln, files). ln @ [CHR 0x0A]) ?coll)"
    using nonempty by (rule written_content)
  also have "\<dots> = ?content"
    by (simp add: comp_def)
  finally have s6: "writeNewStylelintIgnore ?mp (Some ?coll) w7 =
      w7\<lparr>disk := (disk w7)(?mp \<mapsto> ?content)\<rparr>"
    by (simp add: writeNewStylelintIgnore_def writeFile_def)
  let ?w9 = "log Log_success (w7\<lparr>disk := (disk w7)(?mp \<mapsto> ?content)\<rparr>)"
  have s7: "determinateSizeAndLengthFile ?mp ?w9 =
      (Some (length ?content, length (split CHR 0x0A ?content)), ?w9)"
    by (intro determinateSizeAndLengthFile_there) (simp add: log_def)
  have "compressStylelintIgnore JSON_parse glob_sync lint ''.'' w =
      (Inr (), log (Log_size_and_lines (length ?content) (length (split CHR 0x0A ?content))) ?w9)"
    by (simp only: compressStylelintIgnore_def path_join_dot Let_def s1 s2 s3 s4 s5 s6 s7
        prod.case option.case sum.case)
  then show ?thesis by (simp add: log_def)
qed

text \<open>
  Claim C7 as stated fails: the manifest has the comment line \<open># styles\<close> and the entry
  \<open>b.css\<close>, which resolves to one file that still has an error. The compressing script
  rewrites the manifest without the comment line.
\<close>

theorem compactor_drops_comment_lines_counterexample:
  "exampleDisk (''# styles'' @ [CHR 0x0A] @ ''b.css'' @ [CHR 0x0A]) ''.stylelintignore'' =
     Some (''# styles'' @ [CHR 0x0A] @ ''b.css'' @ [CHR 0x0A]) \<and>
   exampleGlob (patternOf ''b.css'') = [''b.css''] \<and>
   oneErrorEngine (Some ()) [''b.css'']
     ((exampleDisk (''# styles'' @ [CHR 0x0A] @ ''b.css'' @ [CHR 0x0A]))
        (''.stylelintignore'' := None,
         ''hash'' \<mapsto> ''# styles'' @ [CHR 0x0A] @ ''b.css'' @ [CHR 0x0A])) =
     Inr [\<lparr>source = ''b.css'', errored = True,
           warnings = [\<lparr>severity = ''error'', line = 1, endLine = 1, rule = ''r''\<rparr>]\<rparr>] \<and>
   fst (compressStylelintIgnore exampleParse exampleGlob oneErrorEngine ''.''
          \<lparr>disk = exampleDisk (''# styles'' @ [CHR 0x0A] @ ''b.css'' @ [CHR 0x0A]), console = []\<rparr>) =
     Inr () \<and>
   disk (snd (compressStylelintIgnore exampleParse exampleGlob oneErrorEngine ''.''
                \<lparr>disk = exampleDisk (''# styles'' @ [CHR 0x0A] @ ''b.css'' @ [CHR 0x0A]),
                 console = []\<rparr>)) ''.stylelintignore'' =
     Some (''b.css'' @ [CHR 0x0A])"
proof (intro conjI)
  show "exampleDisk (''# styles'' @ [CHR 0x0A] @ ''b.css'' @ [CHR 0x0A]) ''.stylelintignore'' =
     Some (''# styles'' @ [CHR 0x0A] @ ''b.css'' @ [CHR 0x0A])"
    by (simp add: exampleDisk_def)
  show "exampleGlob (patternOf ''b.css'') = [''b.css'']"
    by code_simp
  show "oneErrorEngine (Some ()) [''b.css'']
     ((exampleDisk (''# styles'' @ [CHR 0x0A] @ ''b.css'' @ [CHR 0x0A]))
        (''.stylelintignore'' := None,
         ''hash'' \<mapsto> ''# styles'' @ [CHR 0x0A] @ ''b.css'' @ [CHR 0x0A])) =
     Inr [\<lparr>source = ''b.css'', errored = True,
           warnings = [\<lparr>severity = ''error'', line = 1, endLine = 1, rule = ''r''\<rparr>]\<rparr>]"
    by (simp add: oneErrorEngine_def)
  show "fst (compressStylelintIgnore exampleParse exampleGlob oneErrorEngine ''.''
          \<lparr>disk = exampleDisk (''# styles'' @ [CHR 0x0A] @ ''b.css'' @ [CHR 0x0A]), console = []\<rparr>) =
     Inr ()"
    by code_simp
  show "disk (snd (compressStylelintIgnore exampleParse exampleGlob oneErrorEngine ''.''
                \<lparr>disk = exampleDisk (''# styles'' @ [CHR 0x0A] @ ''b.css'' @ [CHR 0x0A]),
                 console = []\<rparr>)) ''.stylelintignore'' =
     Some (''b.css'' @ [CHR 0x0A])"
    by code_simp
qed

text \<open>
  A resolved file whose first line that is not blank is the blanket disable comment is
  deleted from its entry, also when white space outside ASCII stands before the comment:
  with a byte order mark before the comment of the one file of the one entry, the
  compressing script writes the manifest empty although the file still has an error.
\<close>

lemma compactor_drops_file_after_byte_order_mark:
  "hasDisableComment
     ((exampleDisk ''bom.css'')(''bom.css'' \<mapsto>
        [CHR 0xEF, CHR 0xBB, CHR 0xBF] @ ''/* stylelint-disable */'' @ [CHR 0x0A] @
        ''.a { color: red }''))
     ''bom.css''"
  "disk (snd (compressStylelintIgnore exampleParse
                (\<lambda>pattern. if pattern = ''bom.css'' then [''bom.css''] else [])
                oneErrorEngine ''.''
                \<lparr>disk = (exampleDisk ''bom.css'')(''bom.css'' \<mapsto>
                     [CHR 0xEF, CHR 0xBB, CHR 0xBF] @ ''/* stylelint-disable */'' @ [CHR 0x0A] @
                     ''.a { color: red }''),
                 console = []\<rparr>)) ''.stylelintignore'' = Some []"
  by code_simp+

text \<open>
  Claim C7, amended (round trip of the compressing script). The manifest is UTF-8 and has
  line feeds as its only line ends (no carriage return, no line separator U+2028 and no
  paragraph separator U+2029), no blank line, no comment line and no line twice; the
  configuration is there and parses; every line resolves to at least one file, no resolved
  file has the blanket disable comment as its first line that is not blank (blank by the
  white space of the language, the byte order mark and the no-break space included), and
  every lint result of the resolved files has errors. Then the script ends normally and the
  manifest holds what it held, with a line feed added at the end when the last line had
  none.
\<close>

theorem compactor_round_trip:
  "disk w ''.stylelintignore'' = Some manifest \<and>
   wellFormedUTF8 manifest \<and>
   CHR 0x0D \<notin> set manifest \<and>
   \<not> String_includes manifest [CHR 0xE2, CHR 0x80, CHR 0xA8] \<and>
   \<not> String_includes manifest [CHR 0xE2, CHR 0x80, CHR 0xA9] \<and>
   disk w ''.stylelintrc.json'' = Some config \<and>
   JSON_parse config = Some cfg \<and>
   distinct (readline [] manifest) \<and>
   (\<forall>ln\<in>set (readline [] manifest).
      \<not> isSkippedLine ln \<and>
      glob_sync (patternOf ln) \<noteq> [] \<and>
      (\<forall>f\<in>set (glob_sync (patternOf ln)). \<not> hasDisableComment (disk w) f) \<and>
      (\<forall>results.
         lint (Some cfg) (new_Set (glob_sync (patternOf ln)))
           ((disk w)(''.stylelintignore'' := None, ''hash'' \<mapsto> manifest)) = Inr results \<longrightarrow>
         (\<forall>r\<in>set results. errored r))) \<longrightarrow>
   fst (compressStylelintIgnore JSON_parse glob_sync lint ''.'' w) = Inr () \<and>
   disk (snd (compressStylelintIgnore JSON_parse glob_sync lint ''.'' w)) ''.stylelintignore'' =
     Some (if manifest = [] \<or> last manifest = CHR 0x0A then manifest else manifest @ [CHR 0x0A])"
proof (intro impI, elim conjE)
  assume m: "disk w ''.stylelintignore'' = Some manifest"
    and wf: "wellFormedUTF8 manifest"
    and cr: "CHR 0x0D \<notin> set manifest"
    and ls: "\<not> String_includes manifest [CHR 0xE2, CHR 0x80, CHR 0xA8]"
    and ps: "\<not> String_includes manifest [CHR 0xE2, CHR 0x80, CHR 0xA9]"
    and cf: "disk w ''.stylelintrc.json'' = Some config"
    and js: "JSON_parse config = Some cfg"
    and dl: "distinct (readline [] manifest)"
    and ln: "\<forall>ln\<in>set (readline [] manifest).
      \<not> isSkippedLine ln \<and>
      glob_sync (patternOf ln) \<noteq> [] \<and>
      (\<forall>f\<in>set (glob_sync (patternOf ln)). \<not> hasDisableComment (disk w) f) \<and>
      (\<forall>results.
         lint (Some cfg) (new_Set (glob_sync (patternOf ln)))
           ((disk w)(''.stylelintignore'' := None, ''hash'' \<mapsto> manifest)) = Inr results \<longrightarrow>
         (\<forall>r\<in>set results. errored r))"
  from ln have ln': "\<forall>ln\<in>set (readline [] manifest).
        \<not> isSkippedLine ln \<and> glob_sync (patternOf ln) \<noteq> [] \<and>
        (\<forall>f\<in>set (glob_sync (patternOf ln)). \<not> hasDisableComment (disk w) f)"
    by blast
  from compress_unchanged_collection
    [of w manifest config JSON_parse cfg glob_sync lint, OF m cf js dl ln']
    readline_round_trip [OF cr ls ps]
  show "fst (compressStylelintIgnore JSON_parse glob_sync lint ''.'' w) = Inr () \<and>
   disk (snd (compressStylelintIgnore JSON_parse glob_sync lint ''.'' w)) ''.stylelintignore'' =
     Some (if manifest = [] \<or> last manifest = CHR 0x0A then manifest else manifest @ [CHR 0x0A])"
    by simp
qed

text \<open>
  A manifest with the one line \<open>b.css\<close> and no line feed at its end.
\<close>

theorem compactor_round_trip_witness:
  "fst (compressStylelintIgnore exampleParse exampleGlob oneErrorEngine ''.''
          \<lparr>disk = exampleDisk ''b.css'', console = []\<rparr>) = Inr () \<and>
   disk (snd (compressStylelintIgnore exampleParse exampleGlob oneErrorEngine ''.''
                \<lparr>disk = exampleDisk ''b.css'', console = []\<rparr>)) ''.stylelintignore'' =
     Some (''b.css'' @ [CHR 0x0A])"
proof -
  let ?w = "\<lparr>disk = exampleDisk ''b.css'', console = []\<rparr>"
  have lines: "readline [] ''b.css'' = [''b.css'']" by code_simp
  have h1: "disk ?w ''.stylelintignore'' = Some ''b.css''" by (simp add: exampleDisk_def)
  have h0: "wellFormedUTF8 ''b.css''" by code_simp
  have h2: "CHR 0x0D \<notin> set ''b.css'' \<and>
      \<not> String_includes ''b.css'' [CHR 0xE2, CHR 0x80, CHR 0xA8] \<and>
      \<not> String_includes ''b.css'' [CHR 0xE2, CHR 0x80, CHR 0xA9]"
    by simp
  have h3: "disk ?w ''.stylelintrc.json'' = Some ''{}''" by (simp add: exampleDisk_def)
  have h4: "exampleParse ''{}'' = Some ()" by (simp add: exampleParse_def)
  have h5: "distinct (readline [] ''b.css'')" by (simp add: lines)
  have g: "exampleGlob (patternOf ''b.css'') = [''b.css'']" by code_simp
  have s: "\<not> isSkippedLine ''b.css''" by code_simp
  have c: "\<not> hasDisableComment (exampleDisk ''b.css'') ''b.css''" by code_simp
  have e: "\<forall>results.
         oneErrorEngine (Some ()) (new_Set (exampleGlob (patternOf ''b.css'')))
           ((disk ?w)(''.stylelintignore'' := None, ''hash'' \<mapsto> ''b.css'')) = Inr results \<longrightarrow>
         (\<forall>r\<in>set results. errored r)"
    by (auto simp: oneErrorEngine_def)
  have h6: "\<forall>ln\<in>set (readline [] ''b.css'').
      \<not> isSkippedLine ln \<and>
      exampleGlob (patternOf ln) \<noteq> [] \<and>
      (\<forall>f\<in>set (exampleGlob (patternOf ln)). \<not> hasDisableComment (disk ?w) f) \<and>
      (\<forall>results.
         oneErrorEngine (Some ()) (new_Set (exampleGlob (patternOf ln)))
           ((disk ?w)(''.stylelintignore'' := None, ''hash'' \<mapsto> ''b.css'')) = Inr results \<longrightarrow>
         (\<forall>r\<in>set results. errored r))"
    using s c e by (simp add: lines g)
  from compactor_round_trip
    [of ?w "''b.css''" "''{}''" exampleParse "()" exampleGlob oneErrorEngine]
    h0 h1 h2 h3 h4 h5 h6
  have "fst (compressStylelintIgnore exampleParse exampleGlob oneErrorEngine ''.'' ?w) = Inr () \<and>
   disk (snd (compressStylelintIgnore exampleParse exampleGlob oneErrorEngine ''.'' ?w)) ''.stylelintignore'' =
     Some (if ''b.css'' = [] \<or> last ''b.css'' = CHR 0x0A then ''b.css'' else ''b.css'' @ [CHR 0x0A])"
    by blast
  then show ?thesis by simp
qed

section \<open>What the scripts print\<close>

lemma printsNoCount_refl: "printsNoCount w w"
  by (simp add: printsNoCount_def)

lemma printsNoCount_same_console: "console w' = console w \<Longrightarrow> printsNoCount w w'"
  by (simp add: printsNoCount_def)

lemma printsNoCount_trans: "printsNoCount w w' \<Longrightarrow> printsNoCount w' w'' \<Longrightarrow> printsNoCount w w''"
  by (auto simp: printsNoCount_def)

lemma printsNoCount_log: "\<not> isErrorCount m \<Longrightarrow> printsNoCount w (log m w)"
  by (simp add: printsNoCount_def log_def)

lemma printsNoCount_log_after:
  "printsNoCount w w' \<Longrightarrow> \<not> isErrorCount m \<Longrightarrow> printsNoCount w (log m w')"
  by (auto simp: printsNoCount_def log_def)

lemma printsNoCount_counts:
  "printsNoCount w w' \<Longrightarrow> filter isErrorCount (console w') = filter isErrorCount (console w)"
  by (auto simp: printsNoCount_def)

lemma disk_log: "disk (log m w) = disk w"
  by (simp add: log_def)

lemma console_log: "console (log m w) = console w @ [m]"
  by (simp add: log_def)

lemma determinateSizeAndLengthFile_prints:
  "printsNoCount w (snd (determinateSizeAndLengthFile filePath w))"
  by (auto simp: determinateSizeAndLengthFile_def isFileExists_def readFile_def
      printsNoCount_refl printsNoCount_log split: option.splits)

lemma determinateSizeAndLengthFile_Some:
  "determinateSizeAndLengthFile filePath w = (Some sl, w') \<Longrightarrow>
     w' = w \<and> (\<exists>content. disk w filePath = Some content \<and>
        sl = (length content, length (split CHR 0x0A content)))"
  by (auto simp: determinateSizeAndLengthFile_def isFileExists_def readFile_def
      split: option.splits if_splits)

lemma getStylelintConfigContent_compress_same:
  "snd (getStylelintConfigContent_compress JSON_parse stylelintFilePath w) = w"
  by (simp add: getStylelintConfigContent_compress_def isFileExists_def readFile_def
      split: option.splits)

lemma getStylelintIgnoreContent_compress_prints:
  "printsNoCount w (snd (getStylelintIgnoreContent_compress glob_sync stylelintIgnoreFilePath w)) \<and>
   disk (snd (getStylelintIgnoreContent_compress glob_sync stylelintIgnoreFilePath w)) = disk w"
  by (auto simp: getStylelintIgnoreContent_compress_def isFileExists_def readFile_def
      printsNoCount_refl printsNoCount_log disk_log split: option.splits)

lemma filterFilesWithDisableComment_compress_prints:
  "printsNoCount w (snd (filterFilesWithDisableComment_compress c w))"
  by (auto simp: filterFilesWithDisableComment_compress_def printsNoCount_refl printsNoCount_log
      split: option.splits prod.splits)

lemma filterFilesWithoutErrors_prints:
  "printsNoCount w (snd (snd (filterFilesWithoutErrors lint c cfg w)))"
  by (auto simp: filterFilesWithoutErrors_def printsNoCount_same_console
      intro!: printsNoCount_log_after
      split: option.splits prod.splits sum.splits)

lemma writeNewStylelintIgnore_prints:
  "printsNoCount w (writeNewStylelintIgnore stylelintIgnoreFilePath c w)"
  by (auto simp: writeNewStylelintIgnore_def printsNoCount_same_console printsNoCount_log
      split: option.splits)

lemma writeNewStylelintIgnore_disk:
  "p \<noteq> stylelintIgnoreFilePath \<Longrightarrow>
     disk (writeNewStylelintIgnore stylelintIgnoreFilePath c w) p = disk w p"
  by (auto simp: writeNewStylelintIgnore_def writeFile_def disk_log split: option.splits)

lemma stage_determinate:
  "determinateSizeAndLengthFile filePath w = (x, w') \<Longrightarrow> printsNoCount w w'"
  using determinateSizeAndLengthFile_prints [of w filePath] by simp

lemma stage_config_compress:
  "getStylelintConfigContent_compress JSON_parse stylelintFilePath w = (x, w') \<Longrightarrow> w' = w"
  using getStylelintConfigContent_compress_same [of JSON_parse stylelintFilePath w] by simp

lemma stage_ignore_compress:
  "getStylelintIgnoreContent_compress glob_sync stylelintIgnoreFilePath w = (x, w') \<Longrightarrow>
     printsNoCount w w'"
  using getStylelintIgnoreContent_compress_prints [of w glob_sync stylelintIgnoreFilePath] by simp

lemma stage_disable_compress:
  "filterFilesWithDisableComment_compress c w = (x, w') \<Longrightarrow> printsNoCount w w'"
  using filterFilesWithDisableComment_compress_prints [of w c] by simp

lemma stage_without_errors:
  "filterFilesWithoutErrors lint c cfg w = (x, c', w') \<Longrightarrow> printsNoCount w w'"
  using filterFilesWithoutErrors_prints [of w lint c cfg] by simp

lemma compress_prints_no_count:
  "printsNoCount w (snd (compressStylelintIgnore JSON_parse glob_sync lint baseUrl w))"
proof -
  let ?mp = "path_join baseUrl ''.stylelintignore''"
  let ?cp = "path_join baseUrl ''.stylelintrc.json''"
  let ?w1 = "log Log_start_compress w"
  have p1: "printsNoCount w ?w1" by (simp add: printsNoCount_log)
  obtain sl w2 where s1: "determinateSizeAndLengthFile ?mp ?w1 = (sl, w2)"
    by (cases "determinateSizeAndLengthFile ?mp ?w1")
  have p2: "printsNoCount w w2"
    using p1 stage_determinate [OF s1] by (rule printsNoCount_trans)
  show ?thesis
  proof (cases sl)
    case None
    with s1 p2 show ?thesis by (simp add: compressStylelintIgnore_def Let_def)
  next
    case (Some sizeLength)
    obtain initialSize initialLength where sz: "sizeLength = (initialSize, initialLength)"
      by (cases sizeLength)
    let ?w3 = "log (Log_size_and_lines initialSize initialLength) w2"
    have p3: "printsNoCount w ?w3" using p2 by (simp add: printsNoCount_log_after)
    obtain rc w4 where s2: "getStylelintConfigContent_compress JSON_parse ?cp ?w3 = (rc, w4)"
      by (cases "getStylelintConfigContent_compress JSON_parse ?cp ?w3")
    have w4: "w4 = ?w3" using s2 by (rule stage_config_compress)
    show ?thesis
    proof (cases rc)
      case (Inl e)
      with s1 Some sz s2 p3 w4 show ?thesis
        by (simp add: compressStylelintIgnore_def Let_def)
    next
      case (Inr cfg)
      obtain coll w5 where s3: "getStylelintIgnoreContent_compress glob_sync ?mp w4 = (coll, w5)"
        by (cases "getStylelintIgnoreContent_compress glob_sync ?mp w4")
      have p5: "printsNoCount w w5"
        using p3 stage_ignore_compress [OF s3] w4 by (auto intro: printsNoCount_trans)
      obtain filtered w6 where s4: "filterFilesWithDisableComment_compress coll w5 = (filtered, w6)"
        by (cases "filterFilesWithDisableComment_compress coll w5")
      have p6: "printsNoCount w w6"
        using p5 stage_disable_compress [OF s4] by (rule printsNoCount_trans)
      obtain r c7 w7 where s5: "filterFilesWithoutErrors lint filtered (Some cfg) w6 = (r, c7, w7)"
        by (cases "filterFilesWithoutErrors lint filtered (Some cfg) w6") auto
      have p7: "printsNoCount w w7"
        using p6 stage_without_errors [OF s5] by (rule printsNoCount_trans)
      show ?thesis
      proof (cases r)
        case (Inl e)
        with s1 Some sz s2 Inr s3 s4 s5 p7 show ?thesis
          by (simp add: compressStylelintIgnore_def Let_def)
      next
        case ok: (Inr u)
        let ?w8 = "writeNewStylelintIgnore ?mp c7 w7"
        let ?w9 = "log Log_success ?w8"
        have p9: "printsNoCount w ?w9"
          using p7 writeNewStylelintIgnore_prints [of w7 ?mp c7]
          by (auto intro: printsNoCount_trans printsNoCount_log_after)
        obtain sl' w10 where s6: "determinateSizeAndLengthFile ?mp ?w9 = (sl', w10)"
          by (cases "determinateSizeAndLengthFile ?mp ?w9")
        have p10: "printsNoCount w w10"
          using p9 stage_determinate [OF s6] by (rule printsNoCount_trans)
        show ?thesis
        proof (cases sl')
          case None
          with s1 Some sz s2 Inr s3 s4 s5 ok s6 p10 show ?thesis
            by (simp add: compressStylelintIgnore_def Let_def)
        next
          case some': (Some sizeLength')
          obtain resultSize resultLength where sz': "sizeLength' = (resultSize, resultLength)"
            by (cases sizeLength')
          have "printsNoCount w (log (Log_size_and_lines resultSize resultLength) w10)"
            using p10 by (simp add: printsNoCount_log_after)
          with s1 Some sz s2 Inr s3 s4 s5 ok s6 some' sz' show ?thesis
            by (simp add: compressStylelintIgnore_def Let_def)
        qed
      qed
    qed
  qed
qed

lemma compress_reports_size_and_lines:
  assumes ok: "fst (compressStylelintIgnore JSON_parse glob_sync lint baseUrl w) = Inr ()"
  shows "\<exists>before after printed.
     disk w (path_join baseUrl ''.stylelintignore'') = Some before \<and>
     disk (snd (compressStylelintIgnore JSON_parse glob_sync lint baseUrl w))
       (path_join baseUrl ''.stylelintignore'') = Some after \<and>
     filter isErrorCount printed = [] \<and>
     console (snd (compressStylelintIgnore JSON_parse glob_sync lint baseUrl w)) =
       console w @
       [Log_start_compress,
        Log_size_and_lines (length before) (length (split CHR 0x0A before))] @
       printed @
       [Log_success,
        Log_size_and_lines (length after) (length (split CHR 0x0A after))]"
proof -
  let ?mp = "path_join baseUrl ''.stylelintignore''"
  let ?cp = "path_join baseUrl ''.stylelintrc.json''"
  let ?w1 = "log Log_start_compress w"
  obtain sl w2 where s1: "determinateSizeAndLengthFile ?mp ?w1 = (sl, w2)"
    by (cases "determinateSizeAndLengthFile ?mp ?w1")
  from ok s1 obtain sizeLength where Some: "sl = Some sizeLength"
    by (cases sl) (auto simp: compressStylelintIgnore_def Let_def)
  from determinateSizeAndLengthFile_Some [OF s1 [unfolded Some]]
  obtain before where w2: "w2 = ?w1" and b: "disk ?w1 ?mp = Some before"
    and sz: "sizeLength = (length before, length (split CHR 0x0A before))" by blast
  let ?w3 = "log (Log_size_and_lines (length before) (length (split CHR 0x0A before))) ?w1"
  obtain rc w4 where s2: "getStylelintConfigContent_compress JSON_parse ?cp ?w3 = (rc, w4)"
    by (cases "getStylelintConfigContent_compress JSON_parse ?cp ?w3")
  have w4: "w4 = ?w3" using s2 by (rule stage_config_compress)
  from ok s1 Some sz w2 s2 obtain cfg where Inr: "rc = Inr cfg"
    by (cases rc) (auto simp: compressStylelintIgnore_def Let_def)
  obtain coll w5 where s3: "getStylelintIgnoreContent_compress glob_sync ?mp ?w3 = (coll, w5)"
    by (cases "getStylelintIgnoreContent_compress glob_sync ?mp ?w3")
  obtain filtered w6 where s4: "filterFilesWithDisableComment_compress coll w5 = (filtered, w6)"
    by (cases "filterFilesWithDisableComment_compress coll w5")
  obtain r c7 w7 where s5: "filterFilesWithoutErrors lint filtered (Some cfg) w6 = (r, c7, w7)"
    by (cases "filterFilesWithoutErrors lint filtered (Some cfg) w6") auto
  from ok s1 Some sz w2 s2 w4 Inr s3 s4 s5 have r: "r = Inr ()"
    by (cases r) (auto simp: compressStylelintIgnore_def Let_def)
  let ?w8 = "writeNewStylelintIgnore ?mp c7 w7"
  let ?w9 = "log Log_success ?w8"
  have p: "printsNoCount ?w3 ?w8"
    using stage_ignore_compress [OF s3] stage_disable_compress [OF s4] stage_without_errors [OF s5]
      writeNewStylelintIgnore_prints [of w7 ?mp c7]
    by (blast intro: printsNoCount_trans)
  obtain sl' w10 where s6: "determinateSizeAndLengthFile ?mp ?w9 = (sl', w10)"
    by (cases "determinateSizeAndLengthFile ?mp ?w9")
  from ok s1 Some sz w2 s2 w4 Inr s3 s4 s5 r s6 obtain sizeLength' where Some': "sl' = Some sizeLength'"
    by (cases sl') (auto simp: compressStylelintIgnore_def Let_def)
  from determinateSizeAndLengthFile_Some [OF s6 [unfolded Some']]
  obtain after where w10: "w10 = ?w9" and a: "disk ?w9 ?mp = Some after"
    and sz': "sizeLength' = (length after, length (split CHR 0x0A after))" by blast
  have res: "compressStylelintIgnore JSON_parse glob_sync lint baseUrl w =
      (Inr (), log (Log_size_and_lines (length after) (length (split CHR 0x0A after))) ?w9)"
    using s1 Some sz w2 s2 w4 Inr s3 s4 s5 r s6 Some' sz' w10
    by (simp add: compressStylelintIgnore_def Let_def)
  from p obtain printed where c8: "console ?w8 = console ?w3 @ printed"
    and n: "filter isErrorCount printed = []"
    by (auto simp: printsNoCount_def)
  have "console (snd (compressStylelintIgnore JSON_parse glob_sync lint baseUrl w)) =
       console w @
       [Log_start_compress,
        Log_size_and_lines (length before) (length (split CHR 0x0A before))] @
       printed @
       [Log_success,
        Log_size_and_lines (length after) (length (split CHR 0x0A after))]"
    by (simp add: res console_log c8)
  moreover have "disk w ?mp = Some before" using b by (simp add: disk_log)
  moreover have "disk (snd (compressStylelintIgnore JSON_parse glob_sync lint baseUrl w)) ?mp = Some after"
    using a by (simp add: res disk_log)
  ultimately show ?thesis using n by blast
qed

lemma getStylelintConfigContent_delete_prints:
  "printsNoCount w (snd (getStylelintConfigContent_delete JSON_parse stylelintFilePath w)) \<and>
   disk (snd (getStylelintConfigContent_delete JSON_parse stylelintFilePath w)) = disk w"
  by (auto simp: getStylelintConfigContent_delete_def isFileExists_def readFile_def
      printsNoCount_refl printsNoCount_log disk_log split: option.splits)

lemma getStylelintIgnoreContent_delete_result:
  "getStylelintIgnoreContent_delete glob_sync stylelintIgnoreFilePath w = (x, w') \<Longrightarrow>
     printsNoCount w w' \<and> disk w' = disk w \<and>
     (\<forall>files. x = Some files \<longrightarrow>
        (\<exists>manifest. disk w stylelintIgnoreFilePath = Some manifest \<and>
           files = foldl (addIgnoredFiles glob_sync) [] (readline [] manifest)))"
  by (cases "disk w stylelintIgnoreFilePath")
    (auto simp: getStylelintIgnoreContent_delete_def isFileExists_def readFile_def
      printsNoCount_refl printsNoCount_log disk_log)

lemma getStylelintCountErrors_Inr:
  assumes "getStylelintCountErrors lint cfg filesOpt d = (Inr n, d')"
  shows "\<exists>files manifest results.
     filesOpt = Some files \<and> d ''.stylelintignore'' = Some manifest \<and>
     lint cfg files (d(''.stylelintignore'' := None, ''hash'' \<mapsto> manifest)) = Inr results \<and>
     n = countErrors results \<and>
     d' = d(''hash'' := None, ''.stylelintignore'' \<mapsto> manifest)"
proof -
  from assms obtain manifest where m: "d ''.stylelintignore'' = Some manifest"
    by (cases "d ''.stylelintignore''") (auto simp: getStylelintCountErrors_def rename_def)
  from assms m obtain files where f: "filesOpt = Some files"
    by (cases filesOpt) (auto simp: getStylelintCountErrors_def rename_there)
  from assms m f obtain results
    where l: "lint cfg files (d(''.stylelintignore'' := None, ''hash'' \<mapsto> manifest)) = Inr results"
    by (cases "lint cfg files (d(''.stylelintignore'' := None, ''hash'' \<mapsto> manifest))")
      (auto simp: getStylelintCountErrors_def rename_there)
  from assms m f l have "n = countErrors results"
    and "d' = d(''hash'' := None, ''.stylelintignore'' \<mapsto> manifest)"
    by (simp_all add: getStylelintCountErrors_def rename_there rename_back)
  with m f l show ?thesis by blast
qed

lemma addingComments_prints:
  "printsNoCount w (snd (addingCommentsWithStylelintErrors lint files mp cfg u w))"
  by (auto simp: addingCommentsWithStylelintErrors_def printsNoCount_same_console
      intro!: printsNoCount_log_after split: option.splits prod.splits sum.splits)

lemma filterFilesWithDisableComment_delete_prints:
  "printsNoCount w (snd (filterFilesWithDisableComment_delete s w))"
  by (auto simp: filterFilesWithDisableComment_delete_def printsNoCount_refl printsNoCount_log
      split: option.splits prod.splits)

lemma delete_reports_counts:
  assumes ok: "fst (deleteStylelintIgnore JSON_parse glob_sync lint ''.'' w) = Inr ()"
  shows "\<exists>cfg before after previous current printed1 printed2.
     disk w ''.stylelintignore'' = Some before \<and>
     lint cfg (foldl (addIgnoredFiles glob_sync) [] (readline [] before))
       ((disk w)(''.stylelintignore'' := None, ''hash'' \<mapsto> before)) = Inr previous \<and>
     disk (snd (deleteStylelintIgnore JSON_parse glob_sync lint ''.'' w)) ''.stylelintignore'' =
       Some after \<and>
     lint cfg
       (snd (filterFiles ((disk w)(''hash'' := None))
               (foldl (addIgnoredFiles glob_sync) [] (readline [] before))
               (foldl (addIgnoredFiles glob_sync) [] (readline [] before))))
       ((disk (snd (deleteStylelintIgnore JSON_parse glob_sync lint ''.'' w)))
          (''.stylelintignore'' := None, ''hash'' \<mapsto> after)) = Inr current \<and>
     filter isErrorCount printed1 = [] \<and> filter isErrorCount printed2 = [] \<and>
     console (snd (deleteStylelintIgnore JSON_parse glob_sync lint ''.'' w)) =
       console w @ [Log_start_delete] @ printed1 @ [Log_errors_previous (countErrors previous)] @
       printed2 @ [Log_errors_current (countErrors current)]"
proof -
  let ?mp = "''.stylelintignore''"
  let ?w1 = "log Log_start_delete w"
  obtain cfg w2 where s1: "getStylelintConfigContent_delete JSON_parse ''.stylelintrc.json'' ?w1 = (cfg, w2)"
    by (cases "getStylelintConfigContent_delete JSON_parse ''.stylelintrc.json'' ?w1")
  from getStylelintConfigContent_delete_prints [of ?w1 JSON_parse "''.stylelintrc.json''"] s1
  have p2: "printsNoCount ?w1 w2" and d2: "disk w2 = disk w" by (simp_all add: disk_log)
  obtain filesOpt w3 where s2: "getStylelintIgnoreContent_delete glob_sync ?mp w2 = (filesOpt, w3)"
    by (cases "getStylelintIgnoreContent_delete glob_sync ?mp w2")
  from getStylelintIgnoreContent_delete_result [OF s2]
  have p3: "printsNoCount w2 w3" and d3: "disk w3 = disk w"
    and fo: "\<forall>files. filesOpt = Some files \<longrightarrow>
        (\<exists>manifest. disk w2 ?mp = Some manifest \<and>
           files = foldl (addIgnoredFiles glob_sync) [] (readline [] manifest))"
    by (simp_all add: d2)
  obtain r1 d4 where s3: "getStylelintCountErrors lint cfg filesOpt (disk w3) = (r1, d4)"
    by (cases "getStylelintCountErrors lint cfg filesOpt (disk w3)")
  from ok s1 s2 s3 obtain n1 where r1: "r1 = Inr n1"
    by (cases r1) (auto simp: deleteStylelintIgnore_def path_join_dot Let_def)
  from getStylelintCountErrors_Inr [OF s3 [unfolded r1]]
  obtain files before previous where f: "filesOpt = Some files"
    and b: "disk w ?mp = Some before"
    and l1: "lint cfg files ((disk w)(?mp := None, ''hash'' \<mapsto> before)) = Inr previous"
    and n1: "n1 = countErrors previous"
    and d4: "d4 = (disk w)(''hash'' := None, ?mp \<mapsto> before)"
    by (auto simp: d3)
  from fo f b have files: "files = foldl (addIgnoredFiles glob_sync) [] (readline [] before)"
    by (auto simp: d2)
  have d4': "d4 = (disk w)(''hash'' := None)"
    using b by (auto simp: d4 fun_eq_iff)
  let ?w4 = "log (Log_errors_previous n1) (w3\<lparr>disk := d4\<rparr>)"
  obtain filtered w5 where s4: "filterFilesWithDisableComment_delete filesOpt ?w4 = (filtered, w5)"
    by (cases "filterFilesWithDisableComment_delete filesOpt ?w4")
  from fst_filterFilesWithDisableComment_delete [of filesOpt ?w4] s4 f
  have kept: "filtered = Some (snd (filterFiles ((disk w)(''hash'' := None)) files files))"
    by (simp add: disk_log d4')
  have p5: "printsNoCount ?w4 w5"
    using filterFilesWithDisableComment_delete_prints [of ?w4 filesOpt] s4 by simp
  obtain r2 w6 where s5: "addingCommentsWithStylelintErrors lint filtered ?mp cfg True w5 = (r2, w6)"
    by (cases "addingCommentsWithStylelintErrors lint filtered ?mp cfg True w5")
  have p6: "printsNoCount w5 w6"
    using addingComments_prints [of w5 lint filtered ?mp cfg True] s5 by simp
  from ok s1 s2 s3 r1 s4 s5 have r2: "r2 = Inr ()"
    by (cases r2) (auto simp: deleteStylelintIgnore_def path_join_dot Let_def)
  obtain r3 d7 where s6: "getStylelintCountErrors lint cfg filtered (disk w6) = (r3, d7)"
    by (cases "getStylelintCountErrors lint cfg filtered (disk w6)")
  from ok s1 s2 s3 r1 s4 s5 r2 s6 obtain n2 where r3: "r3 = Inr n2"
    by (cases r3) (auto simp: deleteStylelintIgnore_def path_join_dot Let_def)
  from getStylelintCountErrors_Inr [OF s6 [unfolded r3]] kept
  obtain after current where a: "disk w6 ?mp = Some after"
    and l2: "lint cfg (snd (filterFiles ((disk w)(''hash'' := None)) files files))
        ((disk w6)(?mp := None, ''hash'' \<mapsto> after)) = Inr current"
    and n2: "n2 = countErrors current"
    and d7: "d7 = (disk w6)(''hash'' := None, ?mp \<mapsto> after)"
    by auto
  have res: "deleteStylelintIgnore JSON_parse glob_sync lint ''.'' w =
      (Inr (), log (Log_errors_current n2) (w6\<lparr>disk := d7\<rparr>))"
    using s1 s2 s3 r1 s4 s5 r2 s6 r3
    by (simp add: deleteStylelintIgnore_def path_join_dot Let_def)
  have fin: "disk (snd (deleteStylelintIgnore JSON_parse glob_sync lint ''.'' w)) = d7"
    by (simp add: res disk_log)
  have d7a: "d7 ?mp = Some after" by (simp add: d7)
  have d7r: "d7(?mp := None, ''hash'' \<mapsto> after) = (disk w6)(?mp := None, ''hash'' \<mapsto> after)"
    by (auto simp: d7 fun_eq_iff)
  from p2 p3 have "printsNoCount ?w1 w3" by (rule printsNoCount_trans)
  then obtain printed1 where c3: "console w3 = console ?w1 @ printed1"
    and n3: "filter isErrorCount printed1 = []"
    by (auto simp: printsNoCount_def)
  from p5 p6 have "printsNoCount ?w4 w6" by (rule printsNoCount_trans)
  then obtain printed2 where c6: "console w6 = console ?w4 @ printed2"
    and n6: "filter isErrorCount printed2 = []"
    by (auto simp: printsNoCount_def)
  have con: "console (snd (deleteStylelintIgnore JSON_parse glob_sync lint ''.'' w)) =
       console w @ [Log_start_delete] @ printed1 @ [Log_errors_previous (countErrors previous)] @
       printed2 @ [Log_errors_current (countErrors current)]"
    by (simp add: res console_log c6 c3 n1 n2)
  have l2': "lint cfg
       (snd (filterFiles ((disk w)(''hash'' := None))
               (foldl (addIgnoredFiles glob_sync) [] (readline [] before))
               (foldl (addIgnoredFiles glob_sync) [] (readline [] before))))
       ((disk (snd (deleteStylelintIgnore JSON_parse glob_sync lint ''.'' w)))
          (''.stylelintignore'' := None, ''hash'' \<mapsto> after)) = Inr current"
    using l2 by (simp only: fin d7r files)
  have a': "disk (snd (deleteStylelintIgnore JSON_parse glob_sync lint ''.'' w)) ''.stylelintignore'' =
       Some after"
    by (simp only: fin d7a)
  show ?thesis
    by (intro exI [of _ cfg] exI [of _ before] exI [of _ after] exI [of _ previous]
        exI [of _ current] exI [of _ printed1] exI [of _ printed2] conjI
        b l1 [unfolded files] a' l2' n3 n6 con)
qed

text \<open>
  Claim C9 as stated fails. The compressing script prints the size and the number of lines
  of the manifest and no count of errors, although the engine finds an error in the one
  file. The deleting script reads the files \<open>a.css\<close> and \<open>b.css\<close> from the
  manifest and counts the errors of both before; the filter then deletes \<open>a.css\<close>,
  which begins with the blanket disable comment, and the count after is of \<open>b.css\<close>
  alone.
\<close>

theorem reports_counterexample:
  "console (snd (compressStylelintIgnore exampleParse exampleGlob oneErrorEngine ''.''
                   \<lparr>disk = exampleDisk (''b.css'' @ [CHR 0x0A]), console = []\<rparr>)) =
     [Log_start_compress, Log_size_and_lines 6 2, Log_success, Log_size_and_lines 6 2] \<and>
   fst (getStylelintIgnoreContent_delete exampleGlob ''.stylelintignore''
          \<lparr>disk = exampleDisk (''a.css'' @ [CHR 0x0A] @ ''b.css'' @ [CHR 0x0A]), console = []\<rparr>) =
     Some [''a.css'', ''b.css''] \<and>
   fst (filterFilesWithDisableComment_delete (Some [''a.css'', ''b.css''])
          \<lparr>disk = exampleDisk (''a.css'' @ [CHR 0x0A] @ ''b.css'' @ [CHR 0x0A]), console = []\<rparr>) =
     Some [''b.css''] \<and>
   console (snd (deleteStylelintIgnore exampleParse exampleGlob oneErrorEngine ''.''
                   \<lparr>disk = exampleDisk (''a.css'' @ [CHR 0x0A] @ ''b.css'' @ [CHR 0x0A]),
                    console = []\<rparr>)) =
     [Log_start_delete, Log_errors_previous 2, Log_errors_current 1]"
proof (intro conjI)
  show "console (snd (compressStylelintIgnore exampleParse exampleGlob oneErrorEngine ''.''
                   \<lparr>disk = exampleDisk (''b.css'' @ [CHR 0x0A]), console = []\<rparr>)) =
     [Log_start_compress, Log_size_and_lines 6 2, Log_success, Log_size_and_lines 6 2]"
    by code_simp
  show "fst (getStylelintIgnoreContent_delete exampleGlob ''.stylelintignore''
          \<lparr>disk = exampleDisk (''a.css'' @ [CHR 0x0A] @ ''b.css'' @ [CHR 0x0A]), console = []\<rparr>) =
     Some [''a.css'', ''b.css'']"
    by code_simp
  show "fst (filterFilesWithDisableComment_delete (Some [''a.css'', ''b.css''])
          \<lparr>disk = exampleDisk (''a.css'' @ [CHR 0x0A] @ ''b.css'' @ [CHR 0x0A]), console = []\<rparr>) =
     Some [''b.css'']"
    by code_simp
  show "console (snd (deleteStylelintIgnore exampleParse exampleGlob oneErrorEngine ''.''
                   \<lparr>disk = exampleDisk (''a.css'' @ [CHR 0x0A] @ ''b.css'' @ [CHR 0x0A]),
                    console = []\<rparr>)) =
     [Log_start_delete, Log_errors_previous 2, Log_errors_current 1]"
    by code_simp
qed

text \<open>
  Claim C9, amended (what the two scripts report). A run of the compressing script that
  ends normally prints, after its start line, the size and the number of lines of the
  manifest as it was, and at its end \<open>Success\<close> and the size and the number of lines
  of the manifest as it is then; no run of it prints a count of errors. A run of the deleting
  script that ends normally prints two counts of errors, each from one call of the lint
  engine with the manifest renamed: before the files are changed, of all files the manifest
  resolves to; after, of the files the filter of the disable comments has left, on the file
  system as the run leaves it.
\<close>

theorem reports_before_and_after:
  "(fst (compressStylelintIgnore JSON_parse glob_sync lint baseUrl w) = Inr () \<longrightarrow>
      (\<exists>before after printed.
         disk w (path_join baseUrl ''.stylelintignore'') = Some before \<and>
         disk (snd (compressStylelintIgnore JSON_parse glob_sync lint baseUrl w))
           (path_join baseUrl ''.stylelintignore'') = Some after \<and>
         filter isErrorCount printed = [] \<and>
         console (snd (compressStylelintIgnore JSON_parse glob_sync lint baseUrl w)) =
           console w @
           [Log_start_compress,
            Log_size_and_lines (length before) (length (split CHR 0x0A before))] @
           printed @
           [Log_success,
            Log_size_and_lines (length after) (length (split CHR 0x0A after))])) \<and>
   filter isErrorCount (console (snd (compressStylelintIgnore JSON_parse glob_sync lint baseUrl w))) =
     filter isErrorCount (console w) \<and>
   (fst (deleteStylelintIgnore JSON_parse glob_sync lint ''.'' w) = Inr () \<longrightarrow>
      (\<exists>cfg before after previous current printed1 printed2.
         disk w ''.stylelintignore'' = Some before \<and>
         lint cfg (foldl (addIgnoredFiles glob_sync) [] (readline [] before))
           ((disk w)(''.stylelintignore'' := None, ''hash'' \<mapsto> before)) = Inr previous \<and>
         disk (snd (deleteStylelintIgnore JSON_parse glob_sync lint ''.'' w)) ''.stylelintignore'' =
           Some after \<and>
         lint cfg
           (snd (filterFiles ((disk w)(''hash'' := None))
                   (foldl (addIgnoredFiles glob_sync) [] (readline [] before))
                   (foldl (addIgnoredFiles glob_sync) [] (readline [] before))))
           ((disk (snd (deleteStylelintIgnore JSON_parse glob_sync lint ''.'' w)))
              (''.stylelintignore'' := None, ''hash'' \<mapsto> after)) = Inr current \<and>
         filter isErrorCount printed1 = [] \<and> filter isErrorCount printed2 = [] \<and>
         console (snd (deleteStylelintIgnore JSON_parse glob_sync lint ''.'' w)) =
           console w @ [Log_start_delete] @ printed1 @
           [Log_errors_previous (countErrors previous)] @
           printed2 @ [Log_errors_current (countErrors current)]))"
proof (intro conjI impI)
  assume "fst (compressStylelintIgnore JSON_parse glob_sync lint baseUrl w) = Inr ()"
  then show "\<exists>before after printed.
         disk w (path_join baseUrl ''.stylelintignore'') = Some before \<and>
         disk (snd (compressStylelintIgnore JSON_parse glob_sync lint baseUrl w))
           (path_join baseUrl ''.stylelintignore'') = Some after \<and>
         filter isErrorCount printed = [] \<and>
         console (snd (compressStylelintIgnore JSON_parse glob_sync lint baseUrl w)) =
           console w @
           [Log_start_compress,
            Log_size_and_lines (length before) (length (split CHR 0x0A before))] @
           printed @
           [Log_success,
            Log_size_and_lines (length after) (length (split CHR 0x0A after))]"
    by (rule compress_reports_size_and_lines)
next
  show "filter isErrorCount (console (snd (compressStylelintIgnore JSON_parse glob_sync lint baseUrl w))) =
     filter isErrorCount (console w)"
    using compress_prints_no_count by (rule printsNoCount_counts)
next
  assume "fst (deleteStylelintIgnore JSON_parse glob_sync lint ''.'' w) = Inr ()"
  then show "\<exists>cfg before after previous current printed1 printed2.
         disk w ''.stylelintignore'' = Some before \<and>
         lint cfg (foldl (addIgnoredFiles glob_sync) [] (readline [] before))
           ((disk w)(''.stylelintignore'' := None, ''hash'' \<mapsto> before)) = Inr previous \<and>
         disk (snd (deleteStylelintIgnore JSON_parse glob_sync lint ''.'' w)) ''.stylelintignore'' =
           Some after \<and>
         lint cfg
           (snd (filterFiles ((disk w)(''hash'' := None))
                   (foldl (addIgnoredFiles glob_sync) [] (readline [] before))
                   (foldl (addIgnoredFiles glob_sync) [] (readline [] before))))
           ((disk (snd (deleteStylelintIgnore JSON_parse glob_sync lint ''.'' w)))
              (''.stylelintignore'' := None, ''hash'' \<mapsto> after)) = Inr current \<and>
         filter isErrorCount printed1 = [] \<and> filter isErrorCount printed2 = [] \<and>
         console (snd (deleteStylelintIgnore JSON_parse glob_sync lint ''.'' w)) =
           console w @ [Log_start_delete] @ printed1 @
           [Log_errors_previous (countErrors previous)] @
           printed2 @ [Log_errors_current (countErrors current)]"
    by (rule delete_reports_counts)
qed

text \<open>
  Both scripts on the project whose manifest names \<open>a.css\<close> and \<open>b.css\<close>.
\<close>

theorem reports_before_and_after_witness:
  "(\<exists>before after printed.
      exampleDisk (''a.css'' @ [CHR 0x0A] @ ''b.css'' @ [CHR 0x0A]) ''.stylelintignore'' = Some before \<and>
      disk (snd (compressStylelintIgnore exampleParse exampleGlob oneErrorEngine ''.''
                   \<lparr>disk = exampleDisk (''a.css'' @ [CHR 0x0A] @ ''b.css'' @ [CHR 0x0A]),
                    console = []\<rparr>)) ''.stylelintignore'' = Some after \<and>
      filter isErrorCount printed = [] \<and>
      console (snd (compressStylelintIgnore exampleParse exampleGlob oneErrorEngine ''.''
                      \<lparr>disk = exampleDisk (''a.css'' @ [CHR 0x0A] @ ''b.css'' @ [CHR 0x0A]),
                       console = []\<rparr>)) =
        [Log_start_compress,
         Log_size_and_lines (length before) (length (split CHR 0x0A before))] @
        printed @
        [Log_success,
         Log_size_and_lines (length after) (length (split CHR 0x0A after))]) \<and>
   (\<exists>previous current printed1 printed2.
      console (snd (deleteStylelintIgnore exampleParse exampleGlob oneErrorEngine ''.''
                      \<lparr>disk = exampleDisk (''a.css'' @ [CHR 0x0A] @ ''b.css'' @ [CHR 0x0A]),
                       console = []\<rparr>)) =
        [Log_start_delete] @ printed1 @ [Log_errors_previous (countErrors previous)] @
        printed2 @ [Log_errors_current (countErrors current)])"
proof -
  let ?w = "\<lparr>disk = exampleDisk (''a.css'' @ [CHR 0x0A] @ ''b.css'' @ [CHR 0x0A]), console = []\<rparr>"
  have c: "fst (compressStylelintIgnore exampleParse exampleGlob oneErrorEngine ''.'' ?w) = Inr ()"
    by code_simp
  have d: "fst (deleteStylelintIgnore exampleParse exampleGlob oneErrorEngine ''.'' ?w) = Inr ()"
    by code_simp
  note t = reports_before_and_after [of exampleParse exampleGlob oneErrorEngine "''.''" ?w]
  from t c have 1: "\<exists>before after printed.
         disk ?w (path_join ''.'' ''.stylelintignore'') = Some before \<and>
         disk (snd (compressStylelintIgnore exampleParse exampleGlob oneErrorEngine ''.'' ?w))
           (path_join ''.'' ''.stylelintignore'') = Some after \<and>
         filter isErrorCount printed = [] \<and>
         console (snd (compressStylelintIgnore exampleParse exampleGlob oneErrorEngine ''.'' ?w)) =
           console ?w @
           [Log_start_compress,
            Log_size_and_lines (length before) (length (split CHR 0x0A before))] @
           printed @
           [Log_success,
            Log_size_and_lines (length after) (length (split CHR 0x0A after))]"
    by blast
  from t d have 2: "\<exists>cfg before after previous current printed1 printed2.
         disk ?w ''.stylelintignore'' = Some before \<and>
         oneErrorEngine cfg (foldl (addIgnoredFiles exampleGlob) [] (readline [] before))
           ((disk ?w)(''.stylelintignore'' := None, ''hash'' \<mapsto> before)) = Inr previous \<and>
         disk (snd (deleteStylelintIgnore exampleParse exampleGlob oneErrorEngine ''.'' ?w)) ''.stylelintignore'' =
           Some after \<and>
         oneErrorEngine cfg
           (snd (filterFiles ((disk ?w)(''hash'' := None))
                   (foldl (addIgnoredFiles exampleGlob) [] (readline [] before))
                   (foldl (addIgnoredFiles exampleGlob) [] (readline [] before))))
           ((disk (snd (deleteStylelintIgnore exampleParse exampleGlob oneErrorEngine ''.'' ?w)))
              (''.stylelintignore'' := None, ''hash'' \<mapsto> after)) = Inr current \<and>
         filter isErrorCount printed1 = [] \<and> filter isErrorCount printed2 = [] \<and>
         console (snd (deleteStylelintIgnore exampleParse exampleGlob oneErrorEngine ''.'' ?w)) =
           console ?w @ [Log_start_delete] @ printed1 @
           [Log_errors_previous (countErrors previous)] @
           printed2 @ [Log_errors_current (countErrors current)]"
    by blast
  from 1 have c1: "\<exists>before after printed.
      exampleDisk (''a.css'' @ [CHR 0x0A] @ ''b.css'' @ [CHR 0x0A]) ''.stylelintignore'' = Some before \<and>
      disk (snd (compressStylelintIgnore exampleParse exampleGlob oneErrorEngine ''.'' ?w))
        ''.stylelintignore'' = Some after \<and>
      filter isErrorCount printed = [] \<and>
      console (snd (compressStylelintIgnore exampleParse exampleGlob oneErrorEngine ''.'' ?w)) =
        [Log_start_compress,
         Log_size_and_lines (length before) (length (split CHR 0x0A before))] @
        printed @
        [Log_success,
         Log_size_and_lines (length after) (length (split CHR 0x0A after))]"
    by (simp add: path_join_dot)
  from 2 have d1: "\<exists>previous current printed1 printed2.
      console (snd (deleteStylelintIgnore exampleParse exampleGlob oneErrorEngine ''.'' ?w)) =
        [Log_start_delete] @ printed1 @ [Log_errors_previous (countErrors previous)] @
        printed2 @ [Log_errors_current (countErrors current)]"
    by (elim exE conjE) (simp, blast)
  from c1 d1 show ?thesis by blast
qed

end
